theory Spec2Isabelle
  imports Main "HOL-Library.AList" "HOL-Library.Sublist"
begin

section \<open>Data model\<close>

text \<open>
  A path is the list of its directory entry names, outermost first; the empty list is
  the top directory, which always exists and is both the root and the working directory.
  \<open>path_join p c\<close> is \<open>os.path.join\<close> of a path and an entry name, and
  \<open>os.path.dirname p\<close> is \<open>butlast p\<close>. The entry names the program joins to a path are
  its own literals, the values of \<open>uuid.uuid4()\<close> and the names returned by
  \<open>os.listdir\<close>. The version string is not one of them: it comes from the command line,
  may be empty, hold \<open>/\<close>, or be \<open>.\<close> or \<open>..\<close>, and is resolved in the file system
  (see \<open>find_name\<close> and \<open>mkdir_target\<close> below). On the command line the environment path
  \<open>""\<close> (not given) is the path with no entries.
\<close>

type_synonym path = "string list"

definition path_join :: "path \<Rightarrow> string \<Rightarrow> path" where
  "path_join p c = p @ [c]"

definition dirname :: "path \<Rightarrow> path" where
  "dirname p = butlast p"

text \<open>
  The registry document \<open>{"version": .., "containers": {name: path}}\<close>. The dictionary
  is an association list in insertion order: lookup is \<open>map_of\<close>, assignment is
  \<open>AList.update\<close> (replace in place, or append a new key), and iteration runs over
  the keys, each once.
\<close>

record registry =
  schema_version :: int
  containers :: "(string \<times> path) list"

definition REGISTRY_VERSION :: int where
  "REGISTRY_VERSION = 1"

definition dict_keys :: "(string \<times> path) list \<Rightarrow> string list" where
  "dict_keys d = remdups (map fst d)"

text \<open>
  A file holds either text that \<open>json.load\<close> parses to a registry document, or other
  text (a build template, a recording, an image), which \<open>json.load\<close> rejects.
\<close>

datatype content = RegistryJson registry | Text string

datatype node = Dir | File content

type_synonym filesystem = "(path \<times> node) list"

datatype error =
    UnknownPackageManager
  | DuplicateVersion
  | VersionNotFound
  | CorruptRegistry
  | ExternalToolFailure
  | FileExistsError
  | FileNotFoundError
  | NotADirectoryError
  | IsADirectoryError
  | KeyError

text \<open>
  The external command lines of the program:
  \<open>BuildSandbox sandbox_dir template_file\<close> is
  \<open>sudo singularity build --sandbox sandbox_dir template_file\<close>,
  \<open>BuildImage container_path sandbox_path\<close> is
  \<open>sudo singularity build container_path sandbox_path\<close>,
  \<open>RemoveTree temp_dir\<close> is \<open>sudo rm -rf temp_dir\<close>,
  \<open>RunImage sif_path\<close> is \<open>singularity run sif_path\<close> and
  \<open>Shell sandbox\<close> is \<open>sudo singularity shell --writable sandbox\<close>.
\<close>

datatype command =
    BuildSandbox path path
  | BuildImage path path
  | RemoveTree path
  | RunImage path
  | Shell path

text \<open>
  What an invocation does to the outside: external commands run (with whether they
  succeeded), recording and playback sessions, printed lines (\<open>Print container child\<close>
  is the line \<open>container child\<close>) and files written by the program itself.
\<close>

datatype event =
    Exec command bool
  | RecordCast path command bool
  | PlayCast path bool
  | Print string string
  | Write path

record world =
  fs :: filesystem
  trace :: "event list"

text \<open>
  What one invocation receives from outside the program: the platform's default data
  directory, the values of \<open>uuid.uuid4()\<close> for the container and for the temporary
  directory, the clock reading formatted by \<open>generate_version\<close>, the exit status of
  each external command, and the outcome of the recorder and of the player.
\<close>

record externals =
  default_env :: path
  container_uuid :: string
  temp_uuid :: string
  now :: string
  tool_ok :: "command \<Rightarrow> bool"
  record_ok :: bool
  cast :: string
  image :: string
  play_ok :: bool

type_synonym 'a result = "(error + 'a) \<times> world"

definition andthen :: "(world \<Rightarrow> 'a result) \<Rightarrow> ('a \<Rightarrow> world \<Rightarrow> 'b result) \<Rightarrow> world \<Rightarrow> 'b result" where
  "andthen m f w = (case m w of (Inl e, w') \<Rightarrow> (Inl e, w') | (Inr a, w') \<Rightarrow> f a w')"

definition raise :: "error \<Rightarrow> world \<Rightarrow> 'a result" where
  "raise e w = (Inl e, w)"

definition return :: "'a \<Rightarrow> world \<Rightarrow> 'a result" where
  "return a w = (Inr a, w)"

section \<open>The file system\<close>

definition lookup :: "filesystem \<Rightarrow> path \<Rightarrow> node option" where
  "lookup f p = (if p = [] then Some Dir else map_of f p)"

definition path_exists :: "filesystem \<Rightarrow> path \<Rightarrow> bool" where
  "path_exists f p = (lookup f p \<noteq> None)"

definition isdir :: "filesystem \<Rightarrow> path \<Rightarrow> bool" where
  "isdir f p = (lookup f p = Some Dir)"

text \<open>\<open>os.mkdir\<close>: the parent must be a directory and the path must be new.\<close>

definition fs_mkdir :: "path \<Rightarrow> filesystem \<Rightarrow> error + filesystem" where
  "fs_mkdir p f =
     (if path_exists f p then Inl FileExistsError
      else case lookup f (dirname p) of
             None \<Rightarrow> Inl FileNotFoundError
           | Some (File _) \<Rightarrow> Inl NotADirectoryError
           | Some Dir \<Rightarrow> Inr (AList.update p Dir f))"

text \<open>\<open>open(p, "w")\<close> and a write: the parent must be a directory and the path not one.\<close>

definition fs_write :: "path \<Rightarrow> content \<Rightarrow> filesystem \<Rightarrow> error + filesystem" where
  "fs_write p c f =
     (case lookup f p of
        Some Dir \<Rightarrow> Inl IsADirectoryError
      | _ \<Rightarrow> (case lookup f (dirname p) of
                None \<Rightarrow> Inl FileNotFoundError
              | Some (File _) \<Rightarrow> Inl NotADirectoryError
              | Some Dir \<Rightarrow> Inr (AList.update p (File c) f)))"

text \<open>\<open>rm -rf\<close>: the path and everything below it goes.\<close>

definition fs_remove_tree :: "path \<Rightarrow> filesystem \<Rightarrow> filesystem" where
  "fs_remove_tree p f = filter (\<lambda>(q, n). \<not> prefix p q) f"

text \<open>\<open>os.listdir\<close>: the names of the entries of a directory, each once.\<close>

definition fs_listdir :: "path \<Rightarrow> filesystem \<Rightarrow> string list" where
  "fs_listdir p f = remdups [last q. (q, n) \<leftarrow> f, q \<noteq> [], butlast q = p]"

definition os_listdir :: "path \<Rightarrow> world \<Rightarrow> string list result" where
  "os_listdir p w =
     (case lookup (fs w) p of
        None \<Rightarrow> (Inl FileNotFoundError, w)
      | Some (File _) \<Rightarrow> (Inl NotADirectoryError, w)
      | Some Dir \<Rightarrow> (Inr (fs_listdir p (fs w)), w))"

definition os_mkdir :: "path \<Rightarrow> world \<Rightarrow> unit result" where
  "os_mkdir p w =
     (case fs_mkdir p (fs w) of
        Inl e \<Rightarrow> (Inl e, w)
      | Inr f \<Rightarrow> (Inr (), w\<lparr>fs := f\<rparr>))"

text \<open>
  \<open>os.makedirs(p, exist_ok)\<close>: make the missing parent first (a \<open>FileExistsError\<close>
  from there is swallowed), then the directory; an existing directory is an error
  unless \<open>exist_ok\<close>.
\<close>

function os_makedirs :: "path \<Rightarrow> bool \<Rightarrow> world \<Rightarrow> unit result" where
  "os_makedirs p exist_ok w =
     (case (if p \<noteq> [] \<and> \<not> path_exists (fs w) (dirname p)
            then (case os_makedirs (dirname p) exist_ok w of
                    (Inl e, w') \<Rightarrow> if e = FileExistsError then (Inr (), w') else (Inl e, w')
                  | (Inr u, w') \<Rightarrow> (Inr (), w'))
            else (Inr (), w)) of
        (Inl e, w') \<Rightarrow> (Inl e, w')
      | (Inr u, w') \<Rightarrow>
          (case os_mkdir p w' of
             (Inl e, w'') \<Rightarrow>
               if \<not> exist_ok \<or> \<not> isdir (fs w'') p then (Inl e, w'') else (Inr (), w'')
           | (Inr u', w'') \<Rightarrow> (Inr (), w'')))"
  by pat_completeness auto
termination
  by (relation "measure (\<lambda>(p, exist_ok, w). length p)") (auto simp: dirname_def)

section \<open>File helpers\<close>

definition read_json :: "path \<Rightarrow> world \<Rightarrow> registry result" where
  "read_json filename w =
     (case lookup (fs w) filename of
        None \<Rightarrow> (Inl FileNotFoundError, w)
      | Some Dir \<Rightarrow> (Inl IsADirectoryError, w)
      | Some (File (Text t)) \<Rightarrow> (Inl CorruptRegistry, w)
      | Some (File (RegistryJson r)) \<Rightarrow> (Inr r, w))"

definition write_content :: "path \<Rightarrow> content \<Rightarrow> world \<Rightarrow> unit result" where
  "write_content filename c w =
     (case fs_write filename c (fs w) of
        Inl e \<Rightarrow> (Inl e, w)
      | Inr f \<Rightarrow> (Inr (), w\<lparr>fs := f, trace := trace w @ [Write filename]\<rparr>))"

definition write_file :: "path \<Rightarrow> string \<Rightarrow> world \<Rightarrow> unit result" where
  "write_file filename text = write_content filename (Text text)"

definition write_json :: "path \<Rightarrow> registry \<Rightarrow> world \<Rightarrow> unit result" where
  "write_json filename obj = write_content filename (RegistryJson obj)"

section \<open>The external collaborators\<close>

text \<open>
  The build engine makes a sandbox directory from a specification file, an image file
  from a sandbox, and runs an image; \<open>rm -rf\<close> removes a tree. A command whose exit
  status is failure, or whose input is missing or whose output cannot be written,
  changes nothing and raises.
\<close>

fun tool_effect :: "externals \<Rightarrow> command \<Rightarrow> filesystem \<Rightarrow> error + filesystem" where
  "tool_effect x (BuildSandbox sandbox_dir template_file) f =
     (if path_exists f template_file then fs_mkdir sandbox_dir f else Inl FileNotFoundError)"
| "tool_effect x (BuildImage container_path sandbox_path) f =
     (if isdir f sandbox_path then fs_write container_path (Text (image x)) f
      else Inl FileNotFoundError)"
| "tool_effect x (RemoveTree temp_dir) f = Inr (fs_remove_tree temp_dir f)"
| "tool_effect x (RunImage sif_path) f =
     (case lookup f sif_path of Some (File c) \<Rightarrow> Inr f | _ \<Rightarrow> Inl FileNotFoundError)"
| "tool_effect x (Shell sandbox) f =
     (if isdir f sandbox then Inr f else Inl FileNotFoundError)"

definition run_command :: "externals \<Rightarrow> command \<Rightarrow> world \<Rightarrow> unit result" where
  "run_command x args w =
     (case (if tool_ok x args then tool_effect x args (fs w) else Inl ExternalToolFailure) of
        Inl e \<Rightarrow> (Inl ExternalToolFailure, w\<lparr>trace := trace w @ [Exec args False]\<rparr>)
      | Inr f \<Rightarrow> (Inr (), w\<lparr>fs := f, trace := trace w @ [Exec args True]\<rparr>))"

text \<open>\<open>asciinema.record_asciicast\<close>: runs the command and writes the session to the file.\<close>

definition record_asciicast :: "externals \<Rightarrow> path \<Rightarrow> command \<Rightarrow> world \<Rightarrow> unit result" where
  "record_asciicast x recording_path command w =
     (case (if record_ok x then fs_write recording_path (Text (cast x)) (fs w)
            else Inl ExternalToolFailure) of
        Inl e \<Rightarrow>
          (Inl ExternalToolFailure,
           w\<lparr>trace := trace w @ [RecordCast recording_path command False]\<rparr>)
      | Inr f \<Rightarrow>
          (Inr (), w\<lparr>fs := f, trace := trace w @ [RecordCast recording_path command True]\<rparr>))"

text \<open>\<open>asciinema.asciicast.open_from_url\<close> and \<open>Player().play\<close>: the file must be there.\<close>

definition play_asciicast :: "externals \<Rightarrow> path \<Rightarrow> world \<Rightarrow> unit result" where
  "play_asciicast x cast_filename w =
     (case lookup (fs w) cast_filename of
        Some (File c) \<Rightarrow>
          if play_ok x then (Inr (), w\<lparr>trace := trace w @ [PlayCast cast_filename True]\<rparr>)
          else (Inl ExternalToolFailure, w\<lparr>trace := trace w @ [PlayCast cast_filename False]\<rparr>)
      | _ \<Rightarrow> (Inl ExternalToolFailure, w\<lparr>trace := trace w @ [PlayCast cast_filename False]\<rparr>))"

definition get_default_environment_path :: "externals \<Rightarrow> path" where
  "get_default_environment_path x = default_env x"

definition generate_container_id :: "externals \<Rightarrow> string" where
  "generate_container_id x = container_uuid x"

definition generate_version :: "externals \<Rightarrow> string" where
  "generate_version x = now x"

section \<open>The registry\<close>

definition load_registry :: "path \<Rightarrow> world \<Rightarrow> registry result" where
  "load_registry env w =
     (let registry_path = path_join env ''registry.json'' in
      if \<not> path_exists (fs w) registry_path
      then andthen (os_makedirs (dirname registry_path) False)
             (\<lambda>u. return \<lparr>schema_version = REGISTRY_VERSION, containers = []\<rparr>) w
      else read_json registry_path w)"

definition save_registry :: "path \<Rightarrow> registry \<Rightarrow> world \<Rightarrow> unit result" where
  "save_registry env registry w =
     (let registry_path = path_join env ''registry.json'' in
      andthen (if \<not> path_exists (fs w) registry_path
               then os_makedirs (dirname registry_path) True
               else return ())
        (\<lambda>u. write_json registry_path registry) w)"

definition get_container_path :: "externals \<Rightarrow> path \<Rightarrow> string \<Rightarrow> world \<Rightarrow> path result" where
  "get_container_path x env name =
     andthen (load_registry env) (\<lambda>registry.
       case map_of (containers registry) name of
         Some stored \<Rightarrow> return stored
       | None \<Rightarrow>
           (let container_id = generate_container_id x;
                container_path = path_join env container_id in
            andthen (os_makedirs container_path False) (\<lambda>u.
            andthen (save_registry env
                       (registry\<lparr>containers :=
                          AList.update name container_path (containers registry)\<rparr>)) (\<lambda>u.
            return container_path))))"

subsection \<open>Joining a name from the command line\<close>

text \<open>
  \<open>os.path.join(p, name)\<close> for any string \<open>name\<close>, and what the operating system makes
  of the result. The name splits at \<open>/\<close> into components (\<open>split_slash\<close> is Python's
  \<open>name.split("/")\<close>); a name that starts with \<open>/\<close> discards \<open>p\<close> and starts at the
  top. Resolution enters the components one by one, and what it stands in must be a
  directory each time: an empty component and \<open>.\<close> stay there, \<open>..\<close> goes to the parent,
  any other component goes to the entry of that name, which need not exist.
\<close>

fun split_slash :: "string \<Rightarrow> string list" where
  "split_slash [] = [[]]"
| "split_slash (ch # rest) =
     (if ch = CHR ''/'' then [] # split_slash rest
      else (case split_slash rest of
              [] \<Rightarrow> [[ch]]
            | c # cs \<Rightarrow> (ch # c) # cs))"

definition entry_name :: "string \<Rightarrow> bool" where
  "entry_name c = (c \<noteq> [] \<and> CHR ''/'' \<notin> set c \<and> c \<noteq> ''.'' \<and> c \<noteq> ''..'')"

definition join_start :: "path \<Rightarrow> string \<Rightarrow> path" where
  "join_start p name =
     (case name of
        [] \<Rightarrow> p
      | ch # rest \<Rightarrow> if ch = CHR ''/'' then [] else p)"

definition enter :: "path \<Rightarrow> string \<Rightarrow> path" where
  "enter cur c =
     (if c = [] \<or> c = ''.'' then cur
      else if c = ''..'' then butlast cur
      else cur @ [c])"

fun walk :: "filesystem \<Rightarrow> path \<Rightarrow> string list \<Rightarrow> error + path" where
  "walk f cur [] = Inr cur"
| "walk f cur (c # cs) =
     (case lookup f cur of
        None \<Rightarrow> Inl FileNotFoundError
      | Some (File content) \<Rightarrow> Inl NotADirectoryError
      | Some Dir \<Rightarrow> walk f (enter cur c) cs)"

text \<open>
  \<open>os.path.exists(os.path.join(p, name))\<close>: the path the joined string stands for, when
  there is one and it exists.
\<close>

definition find_name :: "filesystem \<Rightarrow> path \<Rightarrow> string \<Rightarrow> path option" where
  "find_name f p name =
     (case walk f (join_start p name) (split_slash name) of
        Inl e \<Rightarrow> None
      | Inr q \<Rightarrow> if path_exists f q then Some q else None)"

text \<open>
  The directory \<open>os.mkdir(os.path.join(p, name))\<close> is to make: trailing slashes do not
  count, the components before the last are resolved, and a last component \<open>.\<close> or \<open>..\<close>
  names no new entry.
\<close>

definition strip_trailing :: "string list \<Rightarrow> string list" where
  "strip_trailing cs = rev (dropWhile (\<lambda>c. c = []) (rev cs))"

definition mkdir_target :: "filesystem \<Rightarrow> path \<Rightarrow> string \<Rightarrow> error + path" where
  "mkdir_target f p name =
     (let cs = strip_trailing (split_slash name);
          start = join_start p name in
      if cs = [] then Inr start
      else case walk f start (butlast cs) of
             Inl e \<Rightarrow> Inl e
           | Inr d \<Rightarrow>
               if last cs = ''.'' \<or> last cs = ''..''
               then Inl (if isdir f d then FileExistsError
                         else if path_exists f d then NotADirectoryError
                         else FileNotFoundError)
               else Inr (d @ [last cs]))"

text \<open>
  The version path is returned as the path the joined string stands for; where the
  version does not exist and is not made, the caller does not use it.
\<close>

definition get_container_version_path ::
  "path \<Rightarrow> string \<Rightarrow> bool \<Rightarrow> world \<Rightarrow> (path \<times> bool) result" where
  "get_container_version_path container_path version mkdir w =
     (case find_name (fs w) container_path version of
        None \<Rightarrow>
          if mkdir
          then (case mkdir_target (fs w) container_path version of
                  Inl e \<Rightarrow> (Inl e, w)
                | Inr version_path \<Rightarrow>
                    andthen (os_mkdir version_path) (\<lambda>u. return (version_path, False)) w)
          else return (join_start container_path version @ split_slash version, False) w
      | Some version_path \<Rightarrow> return (version_path, True) w)"

section \<open>Build helpers\<close>

definition get_package_manager :: "string \<Rightarrow> string" where
  "get_package_manager base =
     (if sublist ''ubuntu'' base then ''apt''
      else if sublist ''debian'' base then ''apt''
      else if sublist ''centos'' base then ''yum''
      else if sublist ''fedora'' base then ''yum''
      else ''unknown'')"

definition line :: "string \<Rightarrow> string" where
  "line s = s @ [CHR 0x0A]"

definition backslash :: string where
  "backslash = [CHR 0x5C]"

definition get_template :: "string \<Rightarrow> string \<Rightarrow> string" where
  "get_template package_manager base =
     line ''BootStrap: docker''
     @ line (''From: '' @ base)
     @ line ''%post -c /bin/bash''
     @ line ''  set -ex''
     @ line ''  touch /etc/localtime''
     @ line ''  CUSTOM_ENV=/.singularity.d/env/99-zz_custom_env.sh''
     @ line ''  cat >$CUSTOM_ENV <<EOF''
     @ line ''#!/bin/bash''
     @ line (''PS1='' @ [CHR 0x27] @ backslash @ ''u@neurodesk-builder:'' @ backslash @ ''w''
             @ backslash @ ''$ '' @ [CHR 0x27])
     @ line ''EOF''
     @ line ''  chmod 755 $CUSTOM_ENV''
     @ (if sublist ''ubuntu'' base
        then line (''sed -i -e '' @ [CHR 0x27] @ ''s/ports.ubuntu.com'' @ backslash
                   @ ''/ubuntu-ports/mirror.aarnet.edu.au'' @ backslash @ ''/pub'' @ backslash
                   @ ''/ubuntu'' @ backslash @ ''/ports/g'' @ [CHR 0x27]
                   @ '' /etc/apt/sources.list'')
             @ line (''sed -i -e '' @ [CHR 0x27] @ ''s/archive.ubuntu.com'' @ backslash
                     @ ''/ubuntu/mirror.aarnet.edu.au'' @ backslash @ ''/pub'' @ backslash
                     @ ''/ubuntu'' @ backslash @ ''/archive/g'' @ [CHR 0x27]
                     @ '' /etc/apt/sources.list'')
        else [])
     @ (if package_manager = ''apt'' then line ''apt update -y''
        else if package_manager = ''yum'' then line ''yum update -y''
        else [])"

definition build_container_sandbox ::
  "externals \<Rightarrow> path \<Rightarrow> string \<Rightarrow> string \<Rightarrow> world \<Rightarrow> (path \<times> path) result" where
  "build_container_sandbox x env package_manager base =
     (let template = get_template package_manager base;
          temp_dir = path_join (path_join env ''temp'') (temp_uuid x) in
      andthen (os_makedirs temp_dir False) (\<lambda>u.
        let template_file = path_join temp_dir ''template'' in
        andthen (write_file template_file template) (\<lambda>u.
          let sandbox_dir = path_join temp_dir ''sandbox'' in
          andthen (run_command x (BuildSandbox sandbox_dir template_file)) (\<lambda>u.
            return (temp_dir, sandbox_dir)))))"

definition get_container_run_command :: "path \<Rightarrow> command" where
  "get_container_run_command sandbox = Shell sandbox"

definition get_container_recording_path :: "path \<Rightarrow> path" where
  "get_container_recording_path version_path = path_join version_path ''recording.cast''"

definition convert_container_to_sif :: "externals \<Rightarrow> path \<Rightarrow> path \<Rightarrow> world \<Rightarrow> unit result" where
  "convert_container_to_sif x version_path sandbox_path =
     (let container_path = path_join version_path ''container.sif'' in
      run_command x (BuildImage container_path sandbox_path))"

definition cleanup_temporary_path :: "externals \<Rightarrow> path \<Rightarrow> world \<Rightarrow> unit result" where
  "cleanup_temporary_path x temp_dir = run_command x (RemoveTree temp_dir)"

section \<open>The commands\<close>

definition cmd_create ::
  "externals \<Rightarrow> string \<Rightarrow> string \<Rightarrow> string \<Rightarrow> string \<Rightarrow> path \<Rightarrow> world \<Rightarrow> unit result" where
  "cmd_create x name base version0 pkg env0 =
     (let env = (if env0 = [] then get_default_environment_path x else env0);
          version = (if version0 = [] then generate_version x else version0) in
      andthen (if pkg = []
               then (let detected = get_package_manager base in
                     if detected = ''unknown'' then raise UnknownPackageManager
                     else return detected)
               else return pkg) (\<lambda>package_manager.
      andthen (get_container_path x env name) (\<lambda>container_path.
      andthen (get_container_version_path container_path version True) (\<lambda>(version_path, existed).
        if existed then raise DuplicateVersion
        else
          andthen (build_container_sandbox x env package_manager base) (\<lambda>(temp_dir, sandbox).
            let record_command = get_container_run_command sandbox;
                recording_path = get_container_recording_path version_path in
            andthen (record_asciicast x recording_path record_command) (\<lambda>u.
            andthen (convert_container_to_sif x version_path sandbox) (\<lambda>u.
            cleanup_temporary_path x temp_dir)))))))"

definition cmd_run :: "externals \<Rightarrow> string \<Rightarrow> string \<Rightarrow> path \<Rightarrow> world \<Rightarrow> unit result" where
  "cmd_run x name version env0 =
     (let env = (if env0 = [] then get_default_environment_path x else env0) in
      andthen (get_container_path x env name) (\<lambda>container_path.
      andthen (get_container_version_path container_path version True) (\<lambda>(version_path, existed).
        if \<not> existed then raise VersionNotFound
        else
          (let sif_path = path_join version_path ''container.sif'' in
           run_command x (RunImage sif_path)))))"

fun list_children :: "string \<Rightarrow> path \<Rightarrow> string list \<Rightarrow> world \<Rightarrow> world" where
  "list_children container container_path [] w = w"
| "list_children container container_path (child # rest) w =
     (let child_name = path_join (path_join container_path child) ''container.sif'' in
      list_children container container_path rest
        (if path_exists (fs w) child_name
         then w\<lparr>trace := trace w @ [Print container child]\<rparr>
         else w))"

fun list_containers :: "registry \<Rightarrow> string list \<Rightarrow> world \<Rightarrow> unit result" where
  "list_containers registry [] w = (Inr (), w)"
| "list_containers registry (container # rest) w =
     (case map_of (containers registry) container of
        None \<Rightarrow> (Inl KeyError, w)
      | Some container_path \<Rightarrow>
          (case os_listdir container_path w of
             (Inl e, w') \<Rightarrow> (Inl e, w')
           | (Inr children, w') \<Rightarrow>
               list_containers registry rest
                 (list_children container container_path children w')))"

definition cmd_list :: "externals \<Rightarrow> path \<Rightarrow> world \<Rightarrow> unit result" where
  "cmd_list x env0 =
     (let env = (if env0 = [] then get_default_environment_path x else env0) in
      andthen (load_registry env) (\<lambda>registry.
        list_containers registry (dict_keys (containers registry))))"

definition cmd_replay :: "externals \<Rightarrow> string \<Rightarrow> string \<Rightarrow> path \<Rightarrow> world \<Rightarrow> unit result" where
  "cmd_replay x name version env0 =
     (let env = (if env0 = [] then get_default_environment_path x else env0) in
      andthen (get_container_path x env name) (\<lambda>container_path.
      andthen (get_container_version_path container_path version False) (\<lambda>(version_path, existed).
        if \<not> existed then raise VersionNotFound
        else
          (let cast_filename = get_container_recording_path version_path in
           play_asciicast x cast_filename))))"

section \<open>Invariants\<close>

text \<open>
  The file system is a tree: every entry lies in a directory.
\<close>

definition wf_fs :: "filesystem \<Rightarrow> bool" where
  "wf_fs f = (\<forall>(q, n) \<in> set f. isdir f (dirname q))"

text \<open>An operation that only adds directories: every other path keeps what it held.\<close>

definition adds_dirs :: "filesystem \<Rightarrow> filesystem \<Rightarrow> bool" where
  "adds_dirs f f' =
     (\<forall>q. lookup f' q = lookup f q \<or> (lookup f q = None \<and> lookup f' q = Some Dir))"

text \<open>
  The registry invariant of an environment: when its registry file holds a document,
  every name of the document maps to a directory that exists.
\<close>

definition registry_invariant :: "path \<Rightarrow> filesystem \<Rightarrow> bool" where
  "registry_invariant env f =
     (case lookup f (path_join env ''registry.json'') of
        Some (File (RegistryJson r)) \<Rightarrow> (\<forall>(name, p) \<in> set (containers r). isdir f p)
      | _ \<Rightarrow> True)"

text \<open>A step that writes and runs nothing and only adds directories to a tree.\<close>

definition quiet_step :: "world \<Rightarrow> world \<Rightarrow> bool" where
  "quiet_step w w' =
     (trace w' = trace w \<and> adds_dirs (fs w) (fs w') \<and> (wf_fs (fs w) \<longrightarrow> wf_fs (fs w')))"

text \<open>
  A step after which every directory is still a directory and no registry document has
  appeared that was not there before.
\<close>

definition keeps_registered :: "filesystem \<Rightarrow> filesystem \<Rightarrow> bool" where
  "keeps_registered f f' =
     ((\<forall>p. isdir f p \<longrightarrow> isdir f' p) \<and>
      (\<forall>q r. lookup f' q = Some (File (RegistryJson r)) \<longrightarrow>
             lookup f q = Some (File (RegistryJson r))))"

text \<open>
  The build steps of \<open>cmd_create\<close> that follow the allocation of the version directory:
  sandbox, recording, conversion, cleanup.
\<close>

definition build_steps ::
  "externals \<Rightarrow> path \<Rightarrow> string \<Rightarrow> string \<Rightarrow> path \<Rightarrow> world \<Rightarrow> unit result" where
  "build_steps x env package_manager base version_path =
     andthen (build_container_sandbox x env package_manager base) (\<lambda>(temp_dir, sandbox).
       let record_command = get_container_run_command sandbox;
           recording_path = get_container_recording_path version_path in
       andthen (record_asciicast x recording_path record_command) (\<lambda>u.
       andthen (convert_container_to_sif x version_path sandbox) (\<lambda>u.
       cleanup_temporary_path x temp_dir)))"

text \<open>
  What the build steps leave of the file system \<open>f0\<close> they started from: a path that
  existed keeps what it held, unless it is one of the two artifacts of the version, was
  not a directory, and now is a file of text.
\<close>

definition build_frame :: "path \<Rightarrow> filesystem \<Rightarrow> filesystem \<Rightarrow> bool" where
  "build_frame version_path f0 f =
     (wf_fs f \<and>
      (\<forall>q. path_exists f0 q \<longrightarrow>
           lookup f q = lookup f0 q \<or>
           ((q = path_join version_path ''recording.cast'' \<or>
             q = path_join version_path ''container.sif'') \<and>
            lookup f0 q \<noteq> Some Dir \<and> (\<exists>c. lookup f q = Some (File (Text c))))) \<and>
      (\<forall>q r. lookup f q = Some (File (RegistryJson r)) \<longrightarrow>
             lookup f0 q = Some (File (RegistryJson r))))"

text \<open>\<open>os.path.isfile\<close>.\<close>

definition isfile :: "filesystem \<Rightarrow> path \<Rightarrow> bool" where
  "isfile f p = (case lookup f p of Some (File c) \<Rightarrow> True | _ \<Rightarrow> False)"

text \<open>The environment an invocation works in, and the version a \<open>create\<close> builds.\<close>

definition environment :: "externals \<Rightarrow> path \<Rightarrow> path" where
  "environment x env0 = (if env0 = [] then get_default_environment_path x else env0)"

definition chosen_version :: "externals \<Rightarrow> string \<Rightarrow> string" where
  "chosen_version x version0 = (if version0 = [] then generate_version x else version0)"

text \<open>The name is a key of the persisted registry of the environment.\<close>

definition registered :: "path \<Rightarrow> string \<Rightarrow> filesystem \<Rightarrow> bool" where
  "registered env name f =
     (case lookup f (path_join env ''registry.json'') of
        Some (File (RegistryJson r)) \<Rightarrow> map_of (containers r) name \<noteq> None
      | _ \<Rightarrow> False)"

text \<open>
  Reading a trace: what an invocation added to it, whether the removal of a temporary
  workspace was attempted, whether an image conversion succeeded, and whether a step
  failed.
\<close>

definition new_events :: "world \<Rightarrow> world \<Rightarrow> event list" where
  "new_events w w' = drop (length (trace w)) (trace w')"

fun is_cleanup :: "event \<Rightarrow> bool" where
  "is_cleanup (Exec (RemoveTree temp_dir) ok) = True"
| "is_cleanup e = False"

fun is_conversion_success :: "event \<Rightarrow> bool" where
  "is_conversion_success (Exec (BuildImage container_path sandbox_path) ok) = ok"
| "is_conversion_success e = False"

fun step_failed :: "event \<Rightarrow> bool" where
  "step_failed (Exec c ok) = (\<not> ok)"
| "step_failed (RecordCast p c ok) = (\<not> ok)"
| "step_failed (PlayCast p ok) = (\<not> ok)"
| "step_failed e = False"

definition cleanup_attempted :: "event list \<Rightarrow> bool" where
  "cleanup_attempted evs = list_ex is_cleanup evs"

definition conversion_succeeded :: "event list \<Rightarrow> bool" where
  "conversion_succeeded evs = list_ex is_conversion_success evs"

text \<open>
  The events of the build steps, by how far the build got: the template is written, then
  the sandbox is built, the session recorded, the image converted, the workspace removed;
  a step that fails is the last.
\<close>

definition build_events :: "path \<Rightarrow> path \<Rightarrow> event list set" where
  "build_events temp_dir version_path =
     (let template_file = path_join temp_dir ''template'';
          sandbox = path_join temp_dir ''sandbox'';
          recording_path = path_join version_path ''recording.cast'';
          image_path = path_join version_path ''container.sif'';
          written = Write template_file;
          sandboxed = Exec (BuildSandbox sandbox template_file);
          recorded = RecordCast recording_path (Shell sandbox);
          converted = Exec (BuildImage image_path sandbox)
      in {[],
          [written, sandboxed False],
          [written, sandboxed True, recorded False],
          [written, sandboxed True, recorded True, converted False],
          [written, sandboxed True, recorded True, converted True,
           Exec (RemoveTree temp_dir) False],
          [written, sandboxed True, recorded True, converted True,
           Exec (RemoveTree temp_dir) True]})"

text \<open>
  A step preserves the invariant of an environment: from a tree in which the registry
  invariant holds it leads to a tree in which it holds, and every directory is still
  there.
\<close>

definition preserves_invariant :: "path \<Rightarrow> world \<Rightarrow> world \<Rightarrow> bool" where
  "preserves_invariant env w w' =
     (wf_fs (fs w) \<and> registry_invariant env (fs w) \<longrightarrow>
      wf_fs (fs w') \<and> registry_invariant env (fs w') \<and>
      (\<forall>p. isdir (fs w) p \<longrightarrow> isdir (fs w') p))"


section \<open>Example states\<close>

definition ext_ok :: externals where
  "ext_ok = \<lparr>default_env = [''home'', ''data''], container_uuid = ''c1'', temp_uuid = ''t1'',
              now = ''20240101_0000'', tool_ok = (\<lambda>c. True), record_ok = True,
              cast = ''session'', image = ''sif'', play_ok = True\<rparr>"

text \<open>The same with the next identifiers, for a second invocation.\<close>

definition ext_next :: externals where
  "ext_next = ext_ok\<lparr>container_uuid := ''c2'', temp_uuid := ''t2''\<rparr>"

text \<open>An environment directory that exists and holds nothing.\<close>

definition world_empty_dir :: world where
  "world_empty_dir = \<lparr>fs = [([''E''], Dir)], trace = []\<rparr>"

text \<open>An environment whose registry has no container yet.\<close>

definition registry_none :: registry where
  "registry_none = \<lparr>schema_version = 1, containers = []\<rparr>"

definition world_no_container :: world where
  "world_no_container =
     \<lparr>fs = [([''E''], Dir), ([''E'', ''registry.json''], File (RegistryJson registry_none))],
      trace = []\<rparr>"

text \<open>
  An environment with the container \<open>alpha\<close> and its version \<open>v1\<close>, whose build stopped
  before the image was made: the version directory holds the recording only.
\<close>

definition registry_alpha :: registry where
  "registry_alpha = \<lparr>schema_version = 1, containers = [(''alpha'', [''E'', ''c1''])]\<rparr>"

definition world_partial :: world where
  "world_partial =
     \<lparr>fs = [([''E''], Dir),
            ([''E'', ''registry.json''], File (RegistryJson registry_alpha)),
            ([''E'', ''c1''], Dir),
            ([''E'', ''c1'', ''v1''], Dir),
            ([''E'', ''c1'', ''v1'', ''recording.cast''], File (Text ''session''))],
      trace = []\<rparr>"

text \<open>The same environment after a full build of \<open>v1\<close>.\<close>

definition world_built :: world where
  "world_built =
     \<lparr>fs = [([''E''], Dir),
            ([''E'', ''registry.json''], File (RegistryJson registry_alpha)),
            ([''E'', ''c1''], Dir),
            ([''E'', ''c1'', ''v1''], Dir),
            ([''E'', ''c1'', ''v1'', ''recording.cast''], File (Text ''session'')),
            ([''E'', ''c1'', ''v1'', ''container.sif''], File (Text ''sif''))],
      trace = []\<rparr>"

text \<open>An empty file system: the environment does not exist yet.\<close>

definition world_fresh :: world where
  "world_fresh = \<lparr>fs = [], trace = []\<rparr>"

section \<open>Facts about the file system\<close>

lemma lookup_update:
  "p \<noteq> [] \<Longrightarrow> lookup (AList.update p n f) q = (if q = p then Some n else lookup f q)"
  by (simp add: lookup_def update_conv')

lemma set_update_cases:
  "(q, m) \<in> set (AList.update p n f) \<Longrightarrow> (q, m) = (p, n) \<or> (q, m) \<in> set f"
  by (induction f) (auto split: if_splits)

lemma butlast_neq_self: "p \<noteq> [] \<Longrightarrow> butlast p \<noteq> p"
  by (metis length_butlast diff_less length_greater_0_conv less_irrefl zero_less_one)

lemma wf_update:
  assumes "wf_fs f" and "p \<noteq> []" and "isdir f (dirname p)" and "n = Dir \<or> \<not> isdir f p"
  shows "wf_fs (AList.update p n f)"
  unfolding wf_fs_def
proof (clarify)
  fix q m assume "(q, m) \<in> set (AList.update p n f)"
  then consider "q = p" | "(q, m) \<in> set f" by (auto dest: set_update_cases)
  then show "isdir (AList.update p n f) (dirname q)"
  proof cases
    case 1
    with assms show ?thesis
      by (simp add: isdir_def lookup_update dirname_def butlast_neq_self)
  next
    case 2
    with assms(1) have "isdir f (dirname q)" by (auto simp: wf_fs_def)
    with assms(2,4) show ?thesis
      by (auto simp: isdir_def lookup_update)
  qed
qed

lemma wf_parent:
  "wf_fs f \<Longrightarrow> path_exists f q \<Longrightarrow> isdir f (dirname q)"
  by (auto simp: wf_fs_def path_exists_def lookup_def isdir_def dirname_def dest!: map_of_SomeD split: if_splits)

lemma wf_prefix:
  "wf_fs f \<Longrightarrow> path_exists f q \<Longrightarrow> prefix p q \<Longrightarrow> path_exists f p"
proof (induction q rule: rev_induct)
  case Nil
  then show ?case by simp
next
  case (snoc y ys)
  show ?case
  proof (cases "p = ys @ [y]")
    case True
    with snoc.prems show ?thesis by simp
  next
    case False
    with snoc.prems(3) have "prefix p ys" by (simp add: prefix_snoc)
    moreover from wf_parent[OF snoc.prems(1,2)] have "path_exists f ys"
      by (simp add: isdir_def path_exists_def dirname_def)
    ultimately show ?thesis using snoc.IH snoc.prems(1) by blast
  qed
qed

lemma lookup_remove_tree:
  "lookup (fs_remove_tree td f) q = (if q \<noteq> [] \<and> prefix td q then None else lookup f q)"
  by (induction f) (auto simp: lookup_def fs_remove_tree_def)

lemma wf_remove_tree: "wf_fs f \<Longrightarrow> wf_fs (fs_remove_tree td f)"
  unfolding wf_fs_def
proof clarify
  fix q m assume wf: "\<forall>(q, n)\<in>set f. isdir f (dirname q)" and "(q, m) \<in> set (fs_remove_tree td f)"
  then have in_f: "(q, m) \<in> set f" and np: "\<not> prefix td q" by (auto simp: fs_remove_tree_def)
  from wf in_f have "isdir f (dirname q)" by auto
  moreover have "\<not> prefix td (dirname q)" using np
    by (metis dirname_def prefix_order.dual_order.trans prefixeq_butlast)
  ultimately show "isdir (fs_remove_tree td f) (dirname q)"
    by (simp add: isdir_def lookup_remove_tree)
qed

lemma adds_dirs_refl: "adds_dirs f f"
  by (simp add: adds_dirs_def)

lemma adds_dirs_trans: "adds_dirs f g \<Longrightarrow> adds_dirs g h \<Longrightarrow> adds_dirs f h"
  unfolding adds_dirs_def by (metis option.distinct(1))


declare os_makedirs.simps [simp del]

lemma quiet_step_refl: "quiet_step w w"
  by (simp add: quiet_step_def adds_dirs_refl)

lemma quiet_step_trans: "quiet_step w w' \<Longrightarrow> quiet_step w' w'' \<Longrightarrow> quiet_step w w''"
  unfolding quiet_step_def using adds_dirs_trans by auto

lemma os_mkdir_ok:
  "os_mkdir p w = (Inr u, w') \<Longrightarrow>
     \<not> path_exists (fs w) p \<and> isdir (fs w) (dirname p) \<and> w' = w\<lparr>fs := AList.update p Dir (fs w)\<rparr>"
  by (auto simp: os_mkdir_def fs_mkdir_def isdir_def split: if_splits option.splits node.splits sum.splits)

lemma os_mkdir_err: "os_mkdir p w = (Inl e, w') \<Longrightarrow> w' = w"
  by (auto simp: os_mkdir_def split: sum.splits)

lemma os_mkdir_quiet: "os_mkdir p w = (r, w') \<Longrightarrow> quiet_step w w'"
proof (cases r)
  case (Inl e)
  assume "os_mkdir p w = (r, w')"
  with Inl show ?thesis by (auto dest: os_mkdir_err simp: quiet_step_refl)
next
  case (Inr u)
  assume "os_mkdir p w = (r, w')"
  with Inr have ok: "\<not> path_exists (fs w) p" "isdir (fs w) (dirname p)"
    "w' = w\<lparr>fs := AList.update p Dir (fs w)\<rparr>"
    using os_mkdir_ok by blast+
  from ok(1) have ne: "p \<noteq> []" by (auto simp: path_exists_def lookup_def)
  have "adds_dirs (fs w) (fs w')"
    using ok(1,3) ne by (auto simp: adds_dirs_def lookup_update path_exists_def)
  moreover have "wf_fs (fs w) \<longrightarrow> wf_fs (fs w')"
    using ok ne by (auto intro: wf_update)
  ultimately show ?thesis using ok(3) by (simp add: quiet_step_def)
qed

lemma os_makedirs_quiet: "os_makedirs p ok w = (r, w') \<Longrightarrow> quiet_step w w'"
proof (induction p ok w arbitrary: r w' rule: os_makedirs.induct)
  case (1 p exist_ok w)
  define pre where "pre = (if p \<noteq> [] \<and> \<not> path_exists (fs w) (dirname p)
            then (case os_makedirs (dirname p) exist_ok w of
                    (Inl e, w') \<Rightarrow> if e = FileExistsError then (Inr (), w') else (Inl e, w')
                  | (Inr u, w') \<Rightarrow> (Inr (), w'))
            else (Inr (), w))"
  have pre_quiet: "quiet_step w (snd pre)"
  proof (cases "p \<noteq> [] \<and> \<not> path_exists (fs w) (dirname p)")
    case True
    obtain r0 w0 where eq: "os_makedirs (dirname p) exist_ok w = (r0, w0)" by force
    from "1.IH"[OF True eq] have "quiet_step w w0" .
    moreover have "snd pre = w0" using True eq by (auto simp: pre_def split: sum.splits)
    ultimately show ?thesis by simp
  next
    case False
    then show ?thesis by (auto simp: pre_def quiet_step_refl)
  qed
  have unfold: "os_makedirs p exist_ok w =
      (case pre of (Inl e, w') \<Rightarrow> (Inl e, w')
       | (Inr u, w') \<Rightarrow>
          (case os_mkdir p w' of
             (Inl e, w'') \<Rightarrow>
               if \<not> exist_ok \<or> \<not> isdir (fs w'') p then (Inl e, w'') else (Inr (), w'')
           | (Inr u', w'') \<Rightarrow> (Inr (), w'')))"
    unfolding pre_def by (subst os_makedirs.simps) simp
  obtain r0 w0 where pre_eq: "pre = (r0, w0)" by force
  show ?case
  proof (cases r0)
    case (Inl e)
    with unfold pre_eq "1.prems" have "w' = w0" by simp
    with pre_quiet pre_eq show ?thesis by simp
  next
    case (Inr u)
    obtain r1 w1 where mk: "os_mkdir p w0 = (r1, w1)" by force
    with unfold pre_eq Inr "1.prems" have "w' = w1" by (auto split: sum.splits if_splits)
    moreover from mk have "quiet_step w0 w1" by (rule os_mkdir_quiet)
    ultimately show ?thesis using pre_quiet pre_eq quiet_step_trans by auto
  qed
qed

lemma os_makedirs_ok:
  "os_makedirs p ok w = (Inr u, w') \<Longrightarrow> isdir (fs w') p \<and> (\<not> ok \<longrightarrow> \<not> path_exists (fs w) p)"
proof -
  assume run: "os_makedirs p ok w = (Inr u, w')"
  define pre where "pre = (if p \<noteq> [] \<and> \<not> path_exists (fs w) (dirname p)
            then (case os_makedirs (dirname p) ok w of
                    (Inl e, w') \<Rightarrow> if e = FileExistsError then (Inr (), w') else (Inl e, w')
                  | (Inr u, w') \<Rightarrow> (Inr (), w'))
            else (Inr (), w))"
  have pre_quiet: "quiet_step w (snd pre)"
  proof (cases "p \<noteq> [] \<and> \<not> path_exists (fs w) (dirname p)")
    case True
    obtain r0 w0 where eq: "os_makedirs (dirname p) ok w = (r0, w0)" by force
    then have "quiet_step w w0" by (rule os_makedirs_quiet)
    moreover have "snd pre = w0" using True eq by (auto simp: pre_def split: sum.splits)
    ultimately show ?thesis by simp
  next
    case False
    then show ?thesis by (auto simp: pre_def quiet_step_refl)
  qed
  have unfold: "os_makedirs p ok w =
      (case pre of (Inl e, w') \<Rightarrow> (Inl e, w')
       | (Inr u, w') \<Rightarrow>
          (case os_mkdir p w' of
             (Inl e, w'') \<Rightarrow>
               if \<not> ok \<or> \<not> isdir (fs w'') p then (Inl e, w'') else (Inr (), w'')
           | (Inr u', w'') \<Rightarrow> (Inr (), w'')))"
    unfolding pre_def by (subst os_makedirs.simps) simp
  obtain r0 w0 where pre_eq: "pre = (r0, w0)" by force
  with unfold run obtain u0 where r0: "r0 = Inr u0" by (cases r0) auto
  obtain r1 w1 where mk: "os_mkdir p w0 = (r1, w1)" by force
  show ?thesis
  proof (cases r1)
    case (Inl e)
    with unfold pre_eq r0 mk run have "ok" "isdir (fs w1) p" "w' = w1"
      by (auto split: if_splits)
    then show ?thesis by simp
  next
    case (Inr u1)
    with unfold pre_eq r0 mk run have w': "w' = w1" by auto
    from mk Inr have new: "\<not> path_exists (fs w0) p" and upd: "w1 = w0\<lparr>fs := AList.update p Dir (fs w0)\<rparr>"
      using os_mkdir_ok by blast+
    from new have ne: "p \<noteq> []" by (auto simp: path_exists_def lookup_def)
    have "isdir (fs w') p" using w' upd ne by (simp add: isdir_def lookup_update)
    moreover have "\<not> path_exists (fs w) p"
      using pre_quiet pre_eq new unfolding quiet_step_def adds_dirs_def path_exists_def
      by (metis snd_conv)
    ultimately show ?thesis by simp
  qed
qed

section \<open>Facts about the registry\<close>

lemma fs_write_ok:
  "fs_write p c f = Inr f' \<Longrightarrow>
     p \<noteq> [] \<and> isdir f (dirname p) \<and> \<not> isdir f p \<and> f' = AList.update p (File c) f"
  by (auto simp: fs_write_def isdir_def lookup_def split: option.splits node.splits if_splits)

lemma fs_mkdir_ok:
  "fs_mkdir p f = Inr f' \<Longrightarrow>
     p \<noteq> [] \<and> isdir f (dirname p) \<and> \<not> path_exists f p \<and> f' = AList.update p Dir f"
  by (auto simp: fs_mkdir_def isdir_def path_exists_def lookup_def split: option.splits node.splits if_splits)

lemma write_content_ok:
  "write_content p c w = (Inr u, w') \<Longrightarrow>
     p \<noteq> [] \<and> isdir (fs w) (dirname p) \<and> \<not> isdir (fs w) p \<and>
     w' = w\<lparr>fs := AList.update p (File c) (fs w), trace := trace w @ [Write p]\<rparr>"
  by (auto simp: write_content_def split: sum.splits dest: fs_write_ok)

lemma write_content_err: "write_content p c w = (Inl e, w') \<Longrightarrow> w' = w"
  by (auto simp: write_content_def split: sum.splits)

lemma run_command_err:
  "run_command x c w = (Inl e, w') \<Longrightarrow>
     e = ExternalToolFailure \<and> w' = w\<lparr>trace := trace w @ [Exec c False]\<rparr>"
  by (auto simp: run_command_def split: sum.splits if_splits)

lemma run_command_ok:
  "run_command x c w = (Inr u, w') \<Longrightarrow>
     tool_ok x c \<and> tool_effect x c (fs w) = Inr (fs w') \<and>
     w' = w\<lparr>fs := fs w', trace := trace w @ [Exec c True]\<rparr>"
  by (auto simp: run_command_def split: sum.splits if_splits)

lemma record_asciicast_err:
  "record_asciicast x p c w = (Inl e, w') \<Longrightarrow>
     e = ExternalToolFailure \<and> w' = w\<lparr>trace := trace w @ [RecordCast p c False]\<rparr>"
  by (auto simp: record_asciicast_def split: sum.splits if_splits)

lemma record_asciicast_ok:
  "record_asciicast x p c w = (Inr u, w') \<Longrightarrow>
     p \<noteq> [] \<and> isdir (fs w) (dirname p) \<and> \<not> isdir (fs w) p \<and>
     w' = w\<lparr>fs := AList.update p (File (Text (cast x))) (fs w),
            trace := trace w @ [RecordCast p c True]\<rparr>"
  by (auto simp: record_asciicast_def split: sum.splits if_splits dest: fs_write_ok)


lemma load_registry_cases:
  assumes "load_registry env w = (res, w')"
  shows "(\<exists>r. lookup (fs w) (path_join env ''registry.json'') = Some (File (RegistryJson r)) \<and>
              res = Inr r \<and> w' = w)
       \<or> (\<not> path_exists (fs w) (path_join env ''registry.json'') \<and>
           res = Inr \<lparr>schema_version = REGISTRY_VERSION, containers = []\<rparr> \<and>
           quiet_step w w' \<and> isdir (fs w') env)
       \<or> (\<exists>e. res = Inl e \<and> quiet_step w w')"
proof (cases "path_exists (fs w) (path_join env ''registry.json'')")
  case True
  with assms show ?thesis
    by (auto simp: load_registry_def read_json_def quiet_step_refl path_exists_def Let_def
             split: option.splits node.splits content.splits)
next
  case False
  obtain r0 w0 where mk: "os_makedirs env False w = (r0, w0)" by force
  then have q: "quiet_step w w0" by (rule os_makedirs_quiet)
  show ?thesis
  proof (cases r0)
    case (Inl e)
    with assms False mk q show ?thesis
      by (auto simp: load_registry_def andthen_def path_join_def dirname_def Let_def)
  next
    case (Inr u)
    with mk have "isdir (fs w0) env" using os_makedirs_ok by blast
    with assms False mk q Inr show ?thesis
      by (auto simp: load_registry_def andthen_def return_def path_join_def dirname_def Let_def)
  qed
qed

lemma save_registry_cases:
  assumes "save_registry env r w = (res, w')"
  shows "(\<exists>e. res = Inl e \<and> quiet_step w w')
       \<or> (\<exists>s. res = Inr () \<and> quiet_step w s \<and>
              write_content (path_join env ''registry.json'') (RegistryJson r) s = (Inr (), w'))"
proof -
  define pre where "pre = (if \<not> path_exists (fs w) (path_join env ''registry.json'')
               then os_makedirs (dirname (path_join env ''registry.json'')) True
               else return ()) w"
  obtain r0 s where pre_eq: "pre = (r0, s)" by force
  have q: "quiet_step w s"
    using pre_eq unfolding pre_def
    by (auto simp: return_def quiet_step_refl dest: os_makedirs_quiet split: if_splits)
  have unfold: "save_registry env r w =
     (case pre of (Inl e, w') \<Rightarrow> (Inl e, w')
      | (Inr a, w') \<Rightarrow> write_json (path_join env ''registry.json'') r w')"
    by (simp add: save_registry_def andthen_def pre_def Let_def)
  show ?thesis
  proof (cases r0)
    case (Inl e)
    with unfold pre_eq assms q show ?thesis by auto
  next
    case (Inr u)
    with unfold pre_eq assms have wr: "write_content (path_join env ''registry.json'') (RegistryJson r) s = (res, w')"
      by (simp add: write_json_def)
    show ?thesis
    proof (cases res)
      case (Inl e)
      with wr have "w' = s" by (auto dest: write_content_err)
      with Inl q show ?thesis by auto
    next
      case (Inr u')
      with wr q show ?thesis by auto
    qed
  qed
qed


lemma quiet_step_isdir: "quiet_step w w' \<Longrightarrow> isdir (fs w) p \<Longrightarrow> isdir (fs w') p"
  unfolding quiet_step_def adds_dirs_def isdir_def by (metis option.distinct(1))

lemma quiet_step_lookup:
  "quiet_step w w' \<Longrightarrow> lookup (fs w) p = Some n \<Longrightarrow> lookup (fs w') p = Some n"
  unfolding quiet_step_def adds_dirs_def by (metis option.distinct(1))

lemma allocate_container_cases:
  assumes "andthen (os_makedirs cp False) (\<lambda>u.
            andthen (save_registry env r') (\<lambda>u. return cp)) s1 = (res, w')"
  shows "(\<exists>e. res = Inl e \<and> quiet_step s1 w')
       \<or> (\<exists>s. quiet_step s1 s \<and> isdir (fs s) cp \<and> \<not> path_exists (fs s1) cp \<and> res = Inr cp \<and>
              write_content (path_join env ''registry.json'') (RegistryJson r') s = (Inr (), w'))"
proof -
  obtain r2 s2 where mk: "os_makedirs cp False s1 = (r2, s2)" by force
  then have q12: "quiet_step s1 s2" by (rule os_makedirs_quiet)
  show ?thesis
  proof (cases r2)
    case (Inl e)
    with assms mk q12 show ?thesis by (auto simp: andthen_def)
  next
    case (Inr u)
    with mk have dir2: "isdir (fs s2) cp" and new: "\<not> path_exists (fs s1) cp"
      using os_makedirs_ok by blast+
    obtain r3 s3 where sv: "save_registry env r' s2 = (r3, s3)" by force
    from assms mk Inr sv have fin: "(res, w') = (case r3 of Inl e \<Rightarrow> (Inl e, s3) | Inr a \<Rightarrow> (Inr cp, s3))"
      by (auto simp: andthen_def return_def split: sum.splits)
    from save_registry_cases[OF sv] show ?thesis
    proof
      assume "\<exists>e. r3 = Inl e \<and> quiet_step s2 s3"
      with fin q12 show ?thesis by (auto intro: quiet_step_trans)
    next
      assume "\<exists>s. r3 = Inr () \<and> quiet_step s2 s \<and>
          write_content (path_join env ''registry.json'') (RegistryJson r') s = (Inr (), s3)"
      then obtain s where s: "r3 = Inr ()" "quiet_step s2 s"
          "write_content (path_join env ''registry.json'') (RegistryJson r') s = (Inr (), s3)" by blast
      from s(2) dir2 have "isdir (fs s) cp" by (rule quiet_step_isdir)
      moreover from q12 s(2) have "quiet_step s1 s" by (rule quiet_step_trans)
      ultimately show ?thesis using fin s new by auto
    qed
  qed
qed

lemma get_container_path_cases:
  assumes "get_container_path x env name w = (res, w')"
  shows "(\<exists>r cp. lookup (fs w) (path_join env ''registry.json'') = Some (File (RegistryJson r)) \<and>
                 map_of (containers r) name = Some cp \<and> res = Inr cp \<and> w' = w)
       \<or> (\<exists>e. res = Inl e \<and> quiet_step w w')
       \<or> (\<exists>r s. (lookup (fs w) (path_join env ''registry.json'') = Some (File (RegistryJson r)) \<or>
                  (\<not> path_exists (fs w) (path_join env ''registry.json'') \<and>
                   r = \<lparr>schema_version = REGISTRY_VERSION, containers = []\<rparr>)) \<and>
                 map_of (containers r) name = None \<and>
                 quiet_step w s \<and>
                 isdir (fs s) (path_join env (container_uuid x)) \<and>
                 res = Inr (path_join env (container_uuid x)) \<and>
                 write_content (path_join env ''registry.json'')
                   (RegistryJson (r\<lparr>containers :=
                      AList.update name (path_join env (container_uuid x)) (containers r)\<rparr>)) s
                   = (Inr (), w'))"
proof -
  let ?cp = "path_join env (container_uuid x)"
  obtain r1 s1 where ld: "load_registry env w = (r1, s1)" by force
  have alloc: ?thesis
    if r1: "r1 = Inr r" and none: "map_of (containers r) name = None" and q: "quiet_step w s1"
      and loaded: "lookup (fs w) (path_join env ''registry.json'') = Some (File (RegistryJson r)) \<or>
                  (\<not> path_exists (fs w) (path_join env ''registry.json'') \<and>
                   r = \<lparr>schema_version = REGISTRY_VERSION, containers = []\<rparr>)" for r
  proof -
    from assms ld r1 none have run: "andthen (os_makedirs ?cp False) (\<lambda>u.
            andthen (save_registry env (r\<lparr>containers := AList.update name ?cp (containers r)\<rparr>))
              (\<lambda>u. return ?cp)) s1 = (res, w')"
      by (simp add: get_container_path_def andthen_def generate_container_id_def Let_def)
    from allocate_container_cases[OF run] show ?thesis
    proof
      assume "\<exists>e. res = Inl e \<and> quiet_step s1 w'"
      with q show ?thesis by (auto intro: quiet_step_trans)
    next
      assume "\<exists>s. quiet_step s1 s \<and> isdir (fs s) ?cp \<and> \<not> path_exists (fs s1) ?cp \<and> res = Inr ?cp \<and>
              write_content (path_join env ''registry.json'')
                (RegistryJson (r\<lparr>containers := AList.update name ?cp (containers r)\<rparr>)) s = (Inr (), w')"
      then obtain s where s: "quiet_step s1 s" "isdir (fs s) ?cp" "res = Inr ?cp"
         "write_content (path_join env ''registry.json'')
                (RegistryJson (r\<lparr>containers := AList.update name ?cp (containers r)\<rparr>)) s = (Inr (), w')"
        by blast
      from q s(1) have "quiet_step w s" by (rule quiet_step_trans)
      with s none loaded show ?thesis by blast
    qed
  qed
  from load_registry_cases[OF ld] show ?thesis
  proof (elim disjE exE conjE)
    fix r assume l: "lookup (fs w) (path_join env ''registry.json'') = Some (File (RegistryJson r))"
      and r1: "r1 = Inr r" and s1: "s1 = w"
    show ?thesis
    proof (cases "map_of (containers r) name")
      case None
      with alloc[OF r1 None] l s1 show ?thesis by (simp add: quiet_step_refl)
    next
      case (Some cp)
      with assms ld r1 s1 l show ?thesis
        by (auto simp: get_container_path_def andthen_def return_def)
    qed
  next
    assume a: "\<not> path_exists (fs w) (path_join env ''registry.json'')"
      "r1 = Inr \<lparr>schema_version = REGISTRY_VERSION, containers = []\<rparr>" "quiet_step w s1"
    show ?thesis by (rule alloc[OF a(2) _ a(3)]) (use a in simp_all)
  next
    fix e assume "r1 = Inl e" "quiet_step w s1"
    with assms ld show ?thesis by (auto simp: get_container_path_def andthen_def)
  qed
qed

lemma get_container_path_registered:
  "lookup (fs w) (path_join env ''registry.json'') = Some (File (RegistryJson r)) \<Longrightarrow>
   map_of (containers r) name = Some cp \<Longrightarrow>
   get_container_path x env name w = (Inr cp, w)"
  by (simp add: get_container_path_def andthen_def load_registry_def read_json_def return_def
        path_exists_def Let_def)

lemma cmd_run_registered:
  assumes "lookup (fs w) (path_join (environment x env) ''registry.json'') = Some (File (RegistryJson r))"
      and "map_of (containers r) name = Some cp"
  shows "cmd_run x name version env w =
           andthen (get_container_version_path cp version True) (\<lambda>(version_path, existed).
             if \<not> existed then raise VersionNotFound
             else (let sif_path = path_join version_path ''container.sif'' in
                   run_command x (RunImage sif_path))) w"
  using get_container_path_registered[OF assms, of x]
  by (simp add: cmd_run_def andthen_def environment_def Let_def)

lemma andthen_Inl: "m w = (Inl e, s) \<Longrightarrow> andthen m f w = (Inl e, s)"
  by (simp add: andthen_def)

lemma andthen_Inr: "m w = (Inr a, s) \<Longrightarrow> andthen m f w = f a s"
  by (simp add: andthen_def)

lemma run_command_trace:
  "run_command x c w = (r, w') \<Longrightarrow> trace w' = trace w @ [Exec c (case r of Inl e \<Rightarrow> False | Inr u \<Rightarrow> True)]"
  by (auto simp: run_command_def split: sum.splits if_splits)

lemma run_command_fs_err: "run_command x c w = (Inl e, w') \<Longrightarrow> fs w' = fs w"
  by (auto simp: run_command_def split: sum.splits if_splits)

lemma build_container_sandbox_cases:
  assumes run: "build_container_sandbox x env pm base w = (r, w')"
  defines "td \<equiv> path_join (path_join env ''temp'') (temp_uuid x)"
  shows "(\<exists>e. r = Inl e \<and> quiet_step w w')
       \<or> (\<exists>s ok. quiet_step w s \<and> \<not> path_exists (fs w) td \<and> isdir (fs s) td \<and>
               \<not> isdir (fs s) (path_join td ''template'') \<and>
               trace w' = trace s @ [Write (path_join td ''template''),
                                     Exec (BuildSandbox (path_join td ''sandbox'') (path_join td ''template'')) ok] \<and>
               (if ok
                then r = Inr (td, path_join td ''sandbox'') \<and>
                     \<not> path_exists (AList.update (path_join td ''template'') (File (Text (get_template pm base))) (fs s))
                         (path_join td ''sandbox'') \<and>
                     fs w' = AList.update (path_join td ''sandbox'') Dir
                               (AList.update (path_join td ''template'') (File (Text (get_template pm base))) (fs s))
                else r = Inl ExternalToolFailure \<and>
                     fs w' = AList.update (path_join td ''template'') (File (Text (get_template pm base))) (fs s)))"
proof -
  let ?tf = "path_join td ''template''"
  let ?sb = "path_join td ''sandbox''"
  let ?tpl = "get_template pm base"
  have unfold: "build_container_sandbox x env pm base w =
      andthen (os_makedirs td False) (\<lambda>u.
        andthen (write_file ?tf ?tpl) (\<lambda>u.
          andthen (run_command x (BuildSandbox ?sb ?tf)) (\<lambda>u. return (td, ?sb)))) w"
    by (simp add: build_container_sandbox_def td_def Let_def)
  obtain r1 s1 where mk: "os_makedirs td False w = (r1, s1)" by force
  then have q1: "quiet_step w s1" by (rule os_makedirs_quiet)
  show ?thesis
  proof (cases r1)
    case (Inl e)
    with run unfold mk have "r = Inl e" "w' = s1" by (simp_all add: andthen_Inl)
    with q1 show ?thesis by blast
  next
    case r1: (Inr u1)
    with mk have new: "\<not> path_exists (fs w) td" and dir: "isdir (fs s1) td"
      using os_makedirs_ok by blast+
    from run unfold mk r1 have run2: "andthen (write_file ?tf ?tpl) (\<lambda>u.
          andthen (run_command x (BuildSandbox ?sb ?tf)) (\<lambda>u. return (td, ?sb))) s1 = (r, w')"
      by (simp add: andthen_Inr)
    obtain r2 s2 where wr: "write_content ?tf (Text ?tpl) s1 = (r2, s2)" by force
    show ?thesis
    proof (cases r2)
      case (Inl e)
      with wr have "s2 = s1" by (auto dest: write_content_err)
      with run2 wr Inl have "r = Inl e" "w' = s1" by (simp_all add: andthen_Inl write_file_def)
      with q1 show ?thesis by blast
    next
      case r2: (Inr u2)
      with wr have nd: "\<not> isdir (fs s1) ?tf"
        and s2: "s2 = s1\<lparr>fs := AList.update ?tf (File (Text ?tpl)) (fs s1), trace := trace s1 @ [Write ?tf]\<rparr>"
        using write_content_ok by blast+
      from run2 wr r2 have run3: "andthen (run_command x (BuildSandbox ?sb ?tf)) (\<lambda>u. return (td, ?sb)) s2 = (r, w')"
        by (simp add: andthen_Inr write_file_def)
      obtain r3 s3 where bs: "run_command x (BuildSandbox ?sb ?tf) s2 = (r3, s3)" by force
      show ?thesis
      proof (cases r3)
        case (Inl e)
        with bs have e: "e = ExternalToolFailure" and fs3: "fs s3 = fs s2"
          and t3: "trace s3 = trace s2 @ [Exec (BuildSandbox ?sb ?tf) False]"
          by (auto dest: run_command_err)
        from run3 bs Inl have "r = Inl e" "w' = s3" by (simp_all add: andthen_Inl)
        with e fs3 t3 s2 q1 new dir nd show ?thesis
          by (intro disjI2 exI[of _ s1] exI[of _ False]) simp
      next
        case r3: (Inr u3)
        with bs have eff: "tool_effect x (BuildSandbox ?sb ?tf) (fs s2) = Inr (fs s3)"
          using run_command_ok by blast
        then have mkd: "fs_mkdir ?sb (fs s2) = Inr (fs s3)" by (simp split: if_splits)
        from bs r3 have t3: "trace s3 = trace s2 @ [Exec (BuildSandbox ?sb ?tf) True]"
          by (auto dest: run_command_trace)
        from run3 bs r3 have "r = Inr (td, ?sb)" "w' = s3" by (simp_all add: andthen_Inr return_def)
        with fs_mkdir_ok[OF mkd] t3 s2 q1 new dir nd show ?thesis
          by (intro disjI2 exI[of _ s1] exI[of _ True]) simp
      qed
    qed
  qed
qed

lemma build_container_sandbox_result:
  "build_container_sandbox x env pm base w = (Inr a, w') \<Longrightarrow>
     a = (path_join (path_join env ''temp'') (temp_uuid x),
          path_join (path_join (path_join env ''temp'') (temp_uuid x)) ''sandbox'')"
  using build_container_sandbox_cases[of x env pm base w "Inr a" w']
  by (auto split: if_splits)

lemma build_steps_cases:
  assumes run: "build_steps x env pm base vp w = (res, w')"
  defines "td \<equiv> path_join (path_join env ''temp'') (temp_uuid x)"
  defines "sb \<equiv> path_join (path_join (path_join env ''temp'') (temp_uuid x)) ''sandbox''"
  obtains
    (no_sandbox) e where "build_container_sandbox x env pm base w = (Inl e, w')" "res = Inl e"
  | (no_recording) e s3 where
      "build_container_sandbox x env pm base w = (Inr (td, sb), s3)"
      "record_asciicast x (path_join vp ''recording.cast'') (Shell sb) s3 = (Inl e, w')"
      "res = Inl e"
  | (no_image) e s3 s4 where
      "build_container_sandbox x env pm base w = (Inr (td, sb), s3)"
      "record_asciicast x (path_join vp ''recording.cast'') (Shell sb) s3 = (Inr (), s4)"
      "run_command x (BuildImage (path_join vp ''container.sif'') sb) s4 = (Inl e, w')"
      "res = Inl e"
  | (converted) s3 s4 s5 where
      "build_container_sandbox x env pm base w = (Inr (td, sb), s3)"
      "record_asciicast x (path_join vp ''recording.cast'') (Shell sb) s3 = (Inr (), s4)"
      "run_command x (BuildImage (path_join vp ''container.sif'') sb) s4 = (Inr (), s5)"
      "run_command x (RemoveTree td) s5 = (res, w')"
proof -
  obtain r3 s3 where sand: "build_container_sandbox x env pm base w = (r3, s3)" by force
  show thesis
  proof (cases r3)
    case (Inl e)
    with run sand have "res = Inl e" "w' = s3" by (simp_all add: build_steps_def andthen_Inl)
    with sand Inl show thesis by (intro no_sandbox[of e]) simp_all
  next
    case (Inr a)
    with sand have a: "a = (td, sb)"
      unfolding td_def sb_def by (auto dest: build_container_sandbox_result)
    with sand Inr have sand': "build_container_sandbox x env pm base w = (Inr (td, sb), s3)" by simp
    from run sand' have run4: "andthen (record_asciicast x (path_join vp ''recording.cast'') (Shell sb)) (\<lambda>u.
          andthen (convert_container_to_sif x vp sb) (\<lambda>u. cleanup_temporary_path x td)) s3 = (res, w')"
      by (simp add: build_steps_def andthen_Inr get_container_run_command_def
            get_container_recording_path_def Let_def)
    obtain r4 s4 where rc: "record_asciicast x (path_join vp ''recording.cast'') (Shell sb) s3 = (r4, s4)"
      by force
    show thesis
    proof (cases r4)
      case (Inl e)
      with run4 rc have "res = Inl e" "w' = s4" by (simp_all add: andthen_Inl)
      with rc Inl sand' show thesis by (intro no_recording[of s3 e]) simp_all
    next
      case r4: (Inr u4)
      with rc have rc': "record_asciicast x (path_join vp ''recording.cast'') (Shell sb) s3 = (Inr (), s4)"
        by simp
      from run4 rc' have run5: "andthen (run_command x (BuildImage (path_join vp ''container.sif'') sb))
            (\<lambda>u. run_command x (RemoveTree td)) s4 = (res, w')"
        by (simp add: andthen_Inr convert_container_to_sif_def cleanup_temporary_path_def Let_def)
      obtain r5 s5 where cv: "run_command x (BuildImage (path_join vp ''container.sif'') sb) s4 = (r5, s5)"
        by force
      show thesis
      proof (cases r5)
        case (Inl e)
        with run5 cv have "res = Inl e" "w' = s5" by (simp_all add: andthen_Inl)
        with cv Inl sand' rc' show thesis by (intro no_image[of s3 s4 e]) simp_all
      next
        case r5: (Inr u5)
        with cv have cv': "run_command x (BuildImage (path_join vp ''container.sif'') sb) s4 = (Inr (), s5)"
          by simp
        from run5 cv' have "run_command x (RemoveTree td) s5 = (res, w')"
          by (simp add: andthen_Inr)
        with sand' rc' cv' show thesis by (rule converted)
      qed
    qed
  qed
qed

lemma build_container_sandbox_trace:
  assumes "build_container_sandbox x env pm base w = (r, w')"
  defines "td \<equiv> path_join (path_join env ''temp'') (temp_uuid x)"
  shows "case r of
           Inl e \<Rightarrow> trace w' = trace w \<or>
                    trace w' = trace w @ [Write (path_join td ''template''),
                      Exec (BuildSandbox (path_join td ''sandbox'') (path_join td ''template'')) False]
         | Inr a \<Rightarrow> trace w' = trace w @ [Write (path_join td ''template''),
                      Exec (BuildSandbox (path_join td ''sandbox'') (path_join td ''template'')) True]"
  using build_container_sandbox_cases[OF assms(1)] unfolding td_def
  by (auto simp: quiet_step_def split: if_splits sum.splits)

lemma record_asciicast_trace:
  "record_asciicast x p c w = (r, w') \<Longrightarrow>
     trace w' = trace w @ [RecordCast p c (case r of Inl e \<Rightarrow> False | Inr u \<Rightarrow> True)]"
  by (auto simp: record_asciicast_def split: sum.splits if_splits)

lemma build_steps_trace:
  assumes "build_steps x env pm base vp w = (res, w')"
  shows "\<exists>evs \<in> build_events (path_join (path_join env ''temp'') (temp_uuid x)) vp.
           trace w' = trace w @ evs"
  using assms
proof (cases rule: build_steps_cases)
  case (no_sandbox e)
  from build_container_sandbox_trace[OF no_sandbox(1)] show ?thesis
    by (auto simp: build_events_def Let_def)
next
  case (no_recording e s3)
  from build_container_sandbox_trace[OF no_recording(1)] record_asciicast_trace[OF no_recording(2)]
  show ?thesis by (simp add: build_events_def Let_def)
next
  case (no_image e s3 s4)
  from build_container_sandbox_trace[OF no_image(1)] record_asciicast_trace[OF no_image(2)]
    run_command_trace[OF no_image(3)]
  show ?thesis by (simp add: build_events_def Let_def)
next
  case (converted s3 s4 s5)
  from build_container_sandbox_trace[OF converted(1)] record_asciicast_trace[OF converted(2)]
    run_command_trace[OF converted(3)] run_command_trace[OF converted(4)]
  show ?thesis by (cases res) (simp_all add: build_events_def Let_def)
qed

lemma andthen_return: "andthen (return a) f w = f a w"
  by (simp add: andthen_def return_def)

lemma andthen_raise: "andthen (raise e) f w = (Inl e, w)"
  by (simp add: andthen_def raise_def)

section \<open>Facts about the version path\<close>

lemma split_slash_entry: "CHR ''/'' \<notin> set c \<Longrightarrow> split_slash c = [c]"
  by (induction c) auto

lemma join_start_entry: "entry_name c \<Longrightarrow> join_start p c = p"
  by (cases c) (auto simp: join_start_def entry_name_def)

lemma enter_entry: "entry_name c \<Longrightarrow> enter cur c = path_join cur c"
  by (simp add: enter_def entry_name_def path_join_def)

lemma strip_trailing_entry: "c \<noteq> [] \<Longrightarrow> strip_trailing [c] = [c]"
  by (simp add: strip_trailing_def)

lemma find_name_entry:
  assumes "entry_name v"
  shows "find_name f p v =
           (if isdir f p \<and> path_exists f (path_join p v) then Some (path_join p v) else None)"
  using assms
  by (auto simp: find_name_def split_slash_entry join_start_entry enter_entry entry_name_def
        isdir_def split: option.splits node.splits)

lemma mkdir_target_entry:
  assumes "entry_name v"
  shows "mkdir_target f p v = Inr (path_join p v)"
  using assms
  by (simp add: mkdir_target_def split_slash_entry join_start_entry strip_trailing_entry
        entry_name_def path_join_def Let_def)

lemma get_container_version_path_quiet:
  "get_container_version_path cp version mkdir w = (r, w') \<Longrightarrow> quiet_step w w'"
  by (auto simp: get_container_version_path_def andthen_def return_def quiet_step_refl
        split: option.splits if_splits sum.splits prod.splits dest: os_mkdir_quiet)

lemma get_container_version_path_found:
  "find_name (fs w) cp version = Some vp \<Longrightarrow>
   get_container_version_path cp version mkdir w = (Inr (vp, True), w)"
  by (simp add: get_container_version_path_def return_def)

lemma get_container_version_path_existed:
  "get_container_version_path cp version mkdir w = (Inr (vp, True), w') \<Longrightarrow>
   find_name (fs w) cp version = Some vp \<and> w' = w"
  by (auto simp: get_container_version_path_def andthen_def return_def
        split: option.splits if_splits sum.splits prod.splits)

lemma get_container_version_path_created:
  "get_container_version_path cp version True w = (Inr (vp, False), w') \<Longrightarrow>
   find_name (fs w) cp version = None \<and> mkdir_target (fs w) cp version = Inr vp \<and>
   os_mkdir vp w = (Inr (), w')"
  by (auto simp: get_container_version_path_def andthen_def return_def
        split: option.splits if_splits sum.splits prod.splits)

lemma walk_append:
  "walk f cur (xs @ ys) = (case walk f cur xs of Inl e \<Rightarrow> Inl e | Inr d \<Rightarrow> walk f d ys)"
  by (induction xs arbitrary: cur) (auto split: option.splits node.splits)

lemma walk_mono:
  "walk f cur xs = Inr d \<Longrightarrow> (\<And>p. isdir f p \<Longrightarrow> isdir g p) \<Longrightarrow> walk g cur xs = Inr d"
proof (induction xs arbitrary: cur)
  case Nil
  then show ?case by simp
next
  case (Cons c cs)
  from Cons.prems(1) have dir: "isdir f cur" and rest: "walk f (enter cur c) cs = Inr d"
    by (auto simp: isdir_def split: option.splits node.splits)
  from Cons.prems(2)[OF dir] have "lookup g cur = Some Dir" by (simp add: isdir_def)
  moreover from Cons.IH[OF rest Cons.prems(2)] have "walk g (enter cur c) cs = Inr d" .
  ultimately show ?case by simp
qed

lemma walk_empties:
  "\<forall>c \<in> set cs. c = [] \<Longrightarrow> cs = [] \<or> isdir f cur \<Longrightarrow> walk f cur cs = Inr cur"
  by (induction cs) (auto simp: isdir_def enter_def)

lemma strip_trailing_split:
  "\<exists>tl. cs = strip_trailing cs @ tl \<and> (\<forall>c \<in> set tl. c = [])"
proof -
  let ?P = "\<lambda>c::string. c = []"
  have "rev (takeWhile ?P (rev cs) @ dropWhile ?P (rev cs)) = cs"
    by (simp only: takeWhile_dropWhile_id rev_rev_ident)
  then have "rev (dropWhile ?P (rev cs)) @ rev (takeWhile ?P (rev cs)) = cs"
    by (simp only: rev_append)
  then have "cs = strip_trailing cs @ rev (takeWhile ?P (rev cs))"
    by (simp only: strip_trailing_def)
  moreover have "\<forall>c \<in> set (rev (takeWhile ?P (rev cs))). c = []"
    by (auto dest: set_takeWhileD)
  ultimately show ?thesis by blast
qed

lemma strip_trailing_last: "strip_trailing cs \<noteq> [] \<Longrightarrow> last (strip_trailing cs) \<noteq> []"
  using hd_dropWhile[of "\<lambda>c. c = []" "rev cs"]
  by (simp add: strip_trailing_def last_rev)

text \<open>A version directory that was made is found again while directories stay.\<close>

lemma made_version_is_found:
  assumes target: "mkdir_target f cp v = Inr t"
      and parent: "isdir f (dirname t)"
      and kept: "\<And>p. isdir f p \<Longrightarrow> isdir g p"
      and there: "isdir g t"
  shows "find_name g cp v = Some t"
proof -
  define start where "start = join_start cp v"
  define full where "full = split_slash v"
  define cs where "cs = strip_trailing full"
  from strip_trailing_split[of full] obtain tl where
    tl: "full = cs @ tl" "\<forall>c \<in> set tl. c = []" unfolding cs_def by blast
  have target': "(if cs = [] then Inr start
      else case walk f start (butlast cs) of
             Inl e \<Rightarrow> Inl e
           | Inr d \<Rightarrow>
               if last cs = ''.'' \<or> last cs = ''..''
               then Inl (if isdir f d then FileExistsError
                         else if path_exists f d then NotADirectoryError
                         else FileNotFoundError)
               else Inr (d @ [last cs])) = Inr t"
    using target unfolding mkdir_target_def Let_def start_def full_def cs_def .
  have "walk g start full = Inr t"
  proof (cases "cs = []")
    case True
    with target' have t: "t = start" by simp
    from tl True have "walk g start full = walk g start tl" by simp
    also have "\<dots> = Inr start" using tl(2) there t by (intro walk_empties) simp_all
    finally show ?thesis using t by simp
  next
    case False
    then obtain pre c where pc: "cs = pre @ [c]" by (metis rev_exhaust)
    with target' obtain d where d: "walk f start pre = Inr d"
      and plain: "c \<noteq> ''.''" "c \<noteq> ''..''" and t: "t = d @ [c]"
      by (auto split: sum.splits if_splits)
    from strip_trailing_last[of full] False pc have ne: "c \<noteq> []" by (simp add: cs_def)
    from parent t have "isdir f d" by (simp add: dirname_def)
    then have dg: "isdir g d" by (rule kept)
    from walk_mono[OF d kept] have wg: "walk g start pre = Inr d" by simp
    from tl(1) pc have "full = pre @ (c # tl)" by simp
    then have "walk g start full = walk g d (c # tl)"
      using wg by (simp only: walk_append sum.case)
    also have "\<dots> = walk g t tl"
      using dg plain ne t by (simp add: isdir_def enter_def)
    also have "\<dots> = Inr t" using tl(2) there by (intro walk_empties) simp_all
    finally show ?thesis .
  qed
  with there show ?thesis
    by (simp add: find_name_def path_exists_def isdir_def start_def full_def)
qed

lemma get_container_version_path_trace:
  "get_container_version_path cp version mkdir w = (r, w') \<Longrightarrow> trace w' = trace w"
  using get_container_version_path_quiet by (auto simp: quiet_step_def)

lemma cmd_create_cases:
  assumes run: "cmd_create x name base version0 pkg env0 w = (res, w')"
  defines "env \<equiv> environment x env0"
  defines "version \<equiv> chosen_version x version0"
  obtains
    (refused) "pkg = []" "get_package_manager base = ''unknown''"
      "res = Inl UnknownPackageManager" "w' = w"
  | (no_container) e where "get_container_path x env name w = (Inl e, w')" "res = Inl e"
  | (no_version) cp e s where "get_container_path x env name w = (Inr cp, s)"
      "get_container_version_path cp version True s = (Inl e, w')" "res = Inl e"
  | (duplicate) cp vp where "get_container_path x env name w = (Inr cp, w')"
      "get_container_version_path cp version True w' = (Inr (vp, True), w')"
      "res = Inl DuplicateVersion"
  | (built) cp vp s s' where "get_container_path x env name w = (Inr cp, s)"
      "get_container_version_path cp version True s = (Inr (vp, False), s')"
      "build_steps x env (if pkg = [] then get_package_manager base else pkg) base vp s'
         = (res, w')"
proof -
  let ?pm = "if pkg = [] then get_package_manager base else pkg"
  let ?rest = "andthen (get_container_path x env name) (\<lambda>container_path.
      andthen (get_container_version_path container_path version True) (\<lambda>(version_path, existed).
        if existed then raise DuplicateVersion
        else build_steps x env ?pm base version_path))"
  have unfold0: "cmd_create x name base version0 pkg env0 =
      andthen (if pkg = []
               then (let detected = get_package_manager base in
                     if detected = ''unknown'' then raise UnknownPackageManager
                     else return detected)
               else return pkg) (\<lambda>package_manager.
      andthen (get_container_path x env name) (\<lambda>container_path.
      andthen (get_container_version_path container_path version True) (\<lambda>(version_path, existed).
        if existed then raise DuplicateVersion
        else build_steps x env package_manager base version_path)))"
    by (simp only: cmd_create_def build_steps_def Let_def env_def version_def environment_def
          chosen_version_def)
  have unfold: "cmd_create x name base version0 pkg env0 w =
     (if pkg = [] \<and> get_package_manager base = ''unknown'' then (Inl UnknownPackageManager, w)
      else ?rest w)"
    unfolding unfold0 by (simp add: andthen_return andthen_raise Let_def)
  show thesis
  proof (cases "pkg = [] \<and> get_package_manager base = ''unknown''")
    case True
    with run unfold show thesis by (intro refused) simp_all
  next
    case False
    with run unfold have run1: "?rest w = (res, w')" by simp
    obtain r1 s1 where gcp: "get_container_path x env name w = (r1, s1)" by force
    show thesis
    proof (cases r1)
      case (Inl e)
      with run1 gcp have "res = Inl e" "w' = s1" by (simp_all add: andthen_Inl)
      with gcp Inl show thesis by (intro no_container[of e]) simp_all
    next
      case (Inr cp)
      from run1 gcp Inr have run2: "andthen (get_container_version_path cp version True)
          (\<lambda>(version_path, existed).
            if existed then raise DuplicateVersion
            else build_steps x env ?pm base version_path) s1 = (res, w')"
        by (simp add: andthen_Inr)
      obtain r2 s2 where gv: "get_container_version_path cp version True s1 = (r2, s2)" by force
      show thesis
      proof (cases r2)
        case (Inl e)
        with run2 gv have "res = Inl e" "w' = s2" by (simp_all add: andthen_Inl)
        with gcp Inr gv Inl show thesis by (intro no_version[of cp s1 e]) simp_all
      next
        case r2: (Inr a)
        obtain vp existed where a: "a = (vp, existed)" by force
        show thesis
        proof (cases existed)
          case True
          with gv r2 a have gv': "get_container_version_path cp version True s1 = (Inr (vp, True), s2)"
            by simp
          then have same: "s2 = s1" by (auto dest: get_container_version_path_existed)
          from run2 gv' have "res = Inl DuplicateVersion" "w' = s2"
            by (simp_all add: andthen_Inr raise_def)
          with gcp Inr gv' same show thesis by (intro duplicate[of cp vp]) simp_all
        next
          case False
          with gv r2 a have gv': "get_container_version_path cp version True s1 = (Inr (vp, False), s2)"
            by simp
          with run2 have "build_steps x env ?pm base vp s2 = (res, w')"
            by (simp add: andthen_Inr)
          with gcp Inr gv' show thesis by (intro built[of cp s1 vp s2]) simp_all
        qed
      qed
    qed
  qed
qed

lemma get_container_path_trace:
  assumes "get_container_path x env name w = (r, w')"
  shows "trace w' = trace w \<or> trace w' = trace w @ [Write (path_join env ''registry.json'')]"
  using get_container_path_cases[OF assms]
  by (auto simp: quiet_step_def dest!: write_content_ok)

lemma os_mkdir_trace: "os_mkdir p w = (r, w') \<Longrightarrow> trace w' = trace w"
  using os_mkdir_quiet by (auto simp: quiet_step_def)

lemma new_events_append: "trace w' = trace w @ evs \<Longrightarrow> new_events w w' = evs"
  by (simp add: new_events_def)

lemma build_events_orderly:
  assumes "evs \<in> build_events td vp" and "pre = [] \<or> pre = [Write p]"
  shows "cleanup_attempted (pre @ evs) = conversion_succeeded (pre @ evs) \<and>
         list_all (\<lambda>e. \<not> step_failed e \<and> \<not> is_cleanup e) (butlast (pre @ evs))"
  using assms
  by (auto simp: build_events_def Let_def cleanup_attempted_def conversion_succeeded_def)

section \<open>Facts about the build steps\<close>

lemma dirname_path_join [simp]: "dirname (path_join p c) = p"
  by (simp add: dirname_def path_join_def)

lemma path_join_not_Nil [simp]: "path_join p c \<noteq> []"
  by (simp add: path_join_def)

lemma path_join_eq [simp]: "path_join p c = path_join q d \<longleftrightarrow> p = q \<and> c = d"
  by (simp add: path_join_def)

lemma path_join_neq_self [simp]: "path_join p c \<noteq> p" "p \<noteq> path_join p c"
  by (simp_all add: path_join_def)

lemma prefix_path_join [simp]: "prefix p (path_join p c)"
  by (simp add: path_join_def)

lemma build_frame_refl: "wf_fs f \<Longrightarrow> build_frame vp f f"
  by (simp add: build_frame_def)

lemma build_frame_exists:
  "build_frame vp f0 f \<Longrightarrow> path_exists f0 q \<Longrightarrow> path_exists f q"
  unfolding build_frame_def path_exists_def by (metis option.distinct(1))

lemma build_frame_quiet:
  assumes fr: "build_frame vp f0 (fs s)" and q: "quiet_step s s'"
  shows "build_frame vp f0 (fs s')"
proof -
  from q have ad: "adds_dirs (fs s) (fs s')" and wf: "wf_fs (fs s) \<longrightarrow> wf_fs (fs s')"
    by (simp_all add: quiet_step_def)
  have same: "lookup (fs s') q = lookup (fs s) q" if "lookup (fs s) q \<noteq> None" for q
    using ad that unfolding adds_dirs_def by metis
  have 1: "wf_fs (fs s')" using fr wf by (simp add: build_frame_def)
  have 2: "lookup (fs s') q = lookup f0 q \<or>
           ((q = path_join vp ''recording.cast'' \<or> q = path_join vp ''container.sif'') \<and>
            lookup f0 q \<noteq> Some Dir \<and> (\<exists>c. lookup (fs s') q = Some (File (Text c))))"
    if ex: "path_exists f0 q" for q
  proof -
    from build_frame_exists[OF fr ex] have "lookup (fs s) q \<noteq> None" by (simp add: path_exists_def)
    then have "lookup (fs s') q = lookup (fs s) q" by (rule same)
    with fr ex show ?thesis by (simp add: build_frame_def)
  qed
  have 3: "lookup f0 q = Some (File (RegistryJson r))"
    if "lookup (fs s') q = Some (File (RegistryJson r))" for q r
  proof -
    from ad that have "lookup (fs s) q = Some (File (RegistryJson r))"
      unfolding adds_dirs_def by (metis node.distinct(1) option.inject)
    with fr show ?thesis by (simp add: build_frame_def)
  qed
  from 1 2 3 show ?thesis unfolding build_frame_def by blast
qed

lemma build_frame_text:
  assumes fr: "build_frame vp f0 f" and ne: "p \<noteq> []" and parent: "isdir f (dirname p)"
      and nd: "\<not> isdir f p"
      and place: "\<not> path_exists f0 p \<or> p = path_join vp ''recording.cast'' \<or>
                  p = path_join vp ''container.sif''"
  shows "build_frame vp f0 (AList.update p (File (Text c)) f)"
proof -
  let ?f' = "AList.update p (File (Text c)) f"
  have 1: "wf_fs ?f'" using fr ne parent nd by (auto simp: build_frame_def intro: wf_update)
  have 2: "lookup ?f' q = lookup f0 q \<or>
           ((q = path_join vp ''recording.cast'' \<or> q = path_join vp ''container.sif'') \<and>
            lookup f0 q \<noteq> Some Dir \<and> (\<exists>c. lookup ?f' q = Some (File (Text c))))"
    if ex: "path_exists f0 q" for q
  proof (cases "q = p")
    case True
    from fr ex have "lookup f q = lookup f0 q \<or> lookup f0 q \<noteq> Some Dir"
      by (auto simp: build_frame_def)
    with nd True have "lookup f0 q \<noteq> Some Dir" by (auto simp: isdir_def)
    with True ex place ne show ?thesis by (auto simp: lookup_update)
  next
    case False
    with fr ex ne show ?thesis by (simp add: build_frame_def lookup_update)
  qed
  have 3: "lookup f0 q = Some (File (RegistryJson r))"
    if "lookup ?f' q = Some (File (RegistryJson r))" for q r
    using that fr ne by (auto simp: build_frame_def lookup_update split: if_splits)
  from 1 2 3 show ?thesis unfolding build_frame_def by blast
qed

lemma build_frame_dir:
  assumes fr: "build_frame vp f0 f" and ne: "p \<noteq> []" and parent: "isdir f (dirname p)"
      and new: "\<not> path_exists f p"
  shows "build_frame vp f0 (AList.update p Dir f)"
proof -
  let ?f' = "AList.update p Dir f"
  have 1: "wf_fs ?f'" using fr ne parent by (auto simp: build_frame_def intro: wf_update)
  have 2: "lookup ?f' q = lookup f0 q \<or>
           ((q = path_join vp ''recording.cast'' \<or> q = path_join vp ''container.sif'') \<and>
            lookup f0 q \<noteq> Some Dir \<and> (\<exists>c. lookup ?f' q = Some (File (Text c))))"
    if ex: "path_exists f0 q" for q
  proof -
    from build_frame_exists[OF fr ex] new have "q \<noteq> p" by auto
    with fr ex ne show ?thesis by (simp add: build_frame_def lookup_update)
  qed
  have 3: "lookup f0 q = Some (File (RegistryJson r))"
    if "lookup ?f' q = Some (File (RegistryJson r))" for q r
    using that fr ne by (auto simp: build_frame_def lookup_update split: if_splits)
  from 1 2 3 show ?thesis unfolding build_frame_def by blast
qed

lemma build_frame_remove_tree:
  assumes fr: "build_frame vp f0 f" and wf0: "wf_fs f0" and new: "\<not> path_exists f0 td"
  shows "build_frame vp f0 (fs_remove_tree td f)"
proof -
  let ?f' = "fs_remove_tree td f"
  have 1: "wf_fs ?f'" using fr by (auto simp: build_frame_def intro: wf_remove_tree)
  have 2: "lookup ?f' q = lookup f0 q \<or>
           ((q = path_join vp ''recording.cast'' \<or> q = path_join vp ''container.sif'') \<and>
            lookup f0 q \<noteq> Some Dir \<and> (\<exists>c. lookup ?f' q = Some (File (Text c))))"
    if ex: "path_exists f0 q" for q
  proof -
    have "\<not> prefix td q" using wf_prefix[OF wf0 ex] new by blast
    then have "lookup ?f' q = lookup f q" by (simp add: lookup_remove_tree)
    with fr ex show ?thesis by (simp add: build_frame_def)
  qed
  have 3: "lookup f0 q = Some (File (RegistryJson r))"
    if "lookup ?f' q = Some (File (RegistryJson r))" for q r
    using that fr by (auto simp: build_frame_def lookup_remove_tree split: if_splits)
  from 1 2 3 show ?thesis unfolding build_frame_def by blast
qed

lemma build_container_sandbox_frame:
  assumes run: "build_container_sandbox x env pm base w = (r, w')" and wf: "wf_fs (fs w)"
  shows "build_frame vp (fs w) (fs w') \<and>
         ((\<exists>a. r = Inr a) \<longrightarrow> \<not> path_exists (fs w) (path_join (path_join env ''temp'') (temp_uuid x)))"
proof -
  let ?td = "path_join (path_join env ''temp'') (temp_uuid x)"
  let ?tf = "path_join ?td ''template''"
  let ?sb = "path_join ?td ''sandbox''"
  let ?T = "File (Text (get_template pm base))"
  from build_container_sandbox_cases[OF run] consider
      (stopped) e where "r = Inl e" "quiet_step w w'"
    | (ran) s ok where "quiet_step w s" "\<not> path_exists (fs w) ?td" "isdir (fs s) ?td"
        "\<not> isdir (fs s) ?tf"
        "if ok then r = Inr (?td, ?sb) \<and> \<not> path_exists (AList.update ?tf ?T (fs s)) ?sb \<and>
                    fs w' = AList.update ?sb Dir (AList.update ?tf ?T (fs s))
         else r = Inl ExternalToolFailure \<and> fs w' = AList.update ?tf ?T (fs s)"
    by blast
  then show ?thesis
  proof cases
    case stopped
    with build_frame_quiet[OF build_frame_refl[OF wf]] show ?thesis by simp
  next
    case ran
    have fr_s: "build_frame vp (fs w) (fs s)"
      using build_frame_quiet[OF build_frame_refl[OF wf] ran(1)] .
    have "\<not> path_exists (fs w) ?tf"
      using wf_prefix[OF wf, of ?tf ?td] ran(2) by auto
    then have fr_t: "build_frame vp (fs w) (AList.update ?tf ?T (fs s))"
      using ran(3,4) by (intro build_frame_text[OF fr_s]) simp_all
    show ?thesis
    proof (cases ok)
      case False
      with ran(5) fr_t show ?thesis by simp
    next
      case True
      with ran(5) have sb: "\<not> path_exists (AList.update ?tf ?T (fs s)) ?sb"
        and fs': "fs w' = AList.update ?sb Dir (AList.update ?tf ?T (fs s))" by simp_all
      have "isdir (AList.update ?tf ?T (fs s)) (dirname ?sb)"
        using ran(3) by (simp add: isdir_def lookup_update)
      with sb have "build_frame vp (fs w) (AList.update ?sb Dir (AList.update ?tf ?T (fs s)))"
        by (intro build_frame_dir[OF fr_t]) simp_all
      with fs' ran(2) show ?thesis by simp
    qed
  qed
qed

lemma run_command_fs_ok:
  "run_command x c w = (Inr u, w') \<Longrightarrow> tool_effect x c (fs w) = Inr (fs w')"
  using run_command_ok by blast

lemma build_steps_frame:
  assumes run: "build_steps x env pm base vp w = (res, w')" and wf: "wf_fs (fs w)"
  shows "build_frame vp (fs w) (fs w')"
  using run
proof (cases rule: build_steps_cases)
  case (no_sandbox e)
  with build_container_sandbox_frame[OF _ wf] show ?thesis by blast
next
  case (no_recording e s3)
  from build_container_sandbox_frame[OF no_recording(1) wf]
  have "build_frame vp (fs w) (fs s3)" by simp
  moreover from no_recording(2) have "fs w' = fs s3" by (auto dest: record_asciicast_err)
  ultimately show ?thesis by simp
next
  case (no_image e s3 s4)
  from build_container_sandbox_frame[OF no_image(1) wf]
  have fr3: "build_frame vp (fs w) (fs s3)" by simp
  from record_asciicast_ok[OF no_image(2)]
  have "fs s4 = AList.update (path_join vp ''recording.cast'') (File (Text (cast x))) (fs s3)"
    and c: "path_join vp ''recording.cast'' \<noteq> []"
      "isdir (fs s3) (dirname (path_join vp ''recording.cast''))"
      "\<not> isdir (fs s3) (path_join vp ''recording.cast'')"
    by simp_all
  with build_frame_text[OF fr3 c] have "build_frame vp (fs w) (fs s4)" by simp
  moreover from no_image(3) have "fs w' = fs s4" by (rule run_command_fs_err)
  ultimately show ?thesis by simp
next
  case (converted s3 s4 s5)
  let ?td = "path_join (path_join env ''temp'') (temp_uuid x)"
  from build_container_sandbox_frame[OF converted(1) wf]
  have fr3: "build_frame vp (fs w) (fs s3)" and new: "\<not> path_exists (fs w) ?td" by simp_all
  from record_asciicast_ok[OF converted(2)]
  have "fs s4 = AList.update (path_join vp ''recording.cast'') (File (Text (cast x))) (fs s3)"
    and c: "path_join vp ''recording.cast'' \<noteq> []"
      "isdir (fs s3) (dirname (path_join vp ''recording.cast''))"
      "\<not> isdir (fs s3) (path_join vp ''recording.cast'')"
    by simp_all
  with build_frame_text[OF fr3 c] have fr4: "build_frame vp (fs w) (fs s4)" by simp
  from run_command_fs_ok[OF converted(3)]
  have "fs_write (path_join vp ''container.sif'') (Text (image x)) (fs s4) = Inr (fs s5)"
    by (simp split: if_splits)
  from fs_write_ok[OF this]
  have "fs s5 = AList.update (path_join vp ''container.sif'') (File (Text (image x))) (fs s4)"
    and d: "path_join vp ''container.sif'' \<noteq> []"
      "isdir (fs s4) (dirname (path_join vp ''container.sif''))"
      "\<not> isdir (fs s4) (path_join vp ''container.sif'')"
    by simp_all
  with build_frame_text[OF fr4 d] have fr5: "build_frame vp (fs w) (fs s5)" by simp
  show ?thesis
  proof (cases res)
    case (Inl e)
    with converted(4) have "fs w' = fs s5" by (auto dest: run_command_fs_err)
    with fr5 show ?thesis by simp
  next
    case (Inr u)
    with converted(4) have "tool_effect x (RemoveTree ?td) (fs s5) = Inr (fs w')"
      by (auto dest: run_command_fs_ok)
    then have "fs w' = fs_remove_tree ?td (fs s5)" by simp
    with build_frame_remove_tree[OF fr5 wf new] show ?thesis by simp
  qed
qed

section \<open>Facts about the invariant\<close>

lemma get_container_path_ok_registered:
  assumes "get_container_path x env name w = (Inr cp, w')"
  shows "\<exists>r. lookup (fs w') (path_join env ''registry.json'') = Some (File (RegistryJson r)) \<and>
             map_of (containers r) name = Some cp"
proof -
  let ?reg = "path_join env ''registry.json''"
  from get_container_path_cases[OF assms] consider
      (known) r where "lookup (fs w) ?reg = Some (File (RegistryJson r))"
        "map_of (containers r) name = Some cp" "w' = w"
    | (fresh) r s where
        "write_content ?reg
          (RegistryJson (r\<lparr>containers := AList.update name cp (containers r)\<rparr>)) s
          = (Inr (), w')"
    by auto
  then show ?thesis
  proof cases
    case known
    then show ?thesis by auto
  next
    case fresh
    let ?r' = "r\<lparr>containers := AList.update name cp (containers r)\<rparr>"
    from write_content_ok[OF fresh]
    have "lookup (fs w') ?reg = Some (File (RegistryJson ?r'))"
      by (simp add: lookup_update)
    moreover have "map_of (containers ?r') name = Some cp" by (simp add: update_conv')
    ultimately show ?thesis by blast
  qed
qed

lemma cmd_create_duplicate:
  assumes "lookup (fs w) (path_join (environment x env0) ''registry.json'') = Some (File (RegistryJson r))"
      and "map_of (containers r) name = Some cp"
      and "find_name (fs w) cp (chosen_version x version0) = Some vp"
      and "\<not> (pkg = [] \<and> get_package_manager base = ''unknown'')"
  shows "cmd_create x name base version0 pkg env0 w = (Inl DuplicateVersion, w)"
  using get_container_path_registered[OF assms(1,2), of x]
    get_container_version_path_found[OF assms(3), of True] assms(4)
  by (auto simp: cmd_create_def andthen_def environment_def chosen_version_def
        raise_def return_def Let_def)

lemma preserves_invariant_refl: "fs w' = fs w \<Longrightarrow> preserves_invariant env w w'"
  by (simp add: preserves_invariant_def)

lemma preserves_invariant_trans:
  "preserves_invariant env w s \<Longrightarrow> preserves_invariant env s w' \<Longrightarrow> preserves_invariant env w w'"
  by (auto simp: preserves_invariant_def)

lemma keeps_registered_invariant:
  assumes "keeps_registered f f'" and "registry_invariant env f"
  shows "registry_invariant env f'"
proof (cases "\<exists>r. lookup f' (path_join env ''registry.json'') = Some (File (RegistryJson r))")
  case False
  then show ?thesis
    by (auto simp: registry_invariant_def split: option.splits node.splits content.splits)
next
  case True
  then obtain r where r': "lookup f' (path_join env ''registry.json'') = Some (File (RegistryJson r))"
    by blast
  with assms(1) have r: "lookup f (path_join env ''registry.json'') = Some (File (RegistryJson r))"
    by (simp add: keeps_registered_def)
  with assms(2) have "\<forall>(name, p) \<in> set (containers r). isdir f p"
    by (simp add: registry_invariant_def)
  with assms(1) have "\<forall>(name, p) \<in> set (containers r). isdir f' p"
    by (auto simp: keeps_registered_def)
  with r' show ?thesis by (simp add: registry_invariant_def)
qed

lemma quiet_step_keeps: "quiet_step w w' \<Longrightarrow> keeps_registered (fs w) (fs w')"
  unfolding quiet_step_def adds_dirs_def keeps_registered_def isdir_def
  by (metis node.distinct(1) option.distinct(1) option.inject)

lemma quiet_step_preserves: "quiet_step w w' \<Longrightarrow> preserves_invariant env w w'"
  using quiet_step_keeps[of w w'] keeps_registered_invariant[of "fs w" "fs w'" env]
  by (auto simp: preserves_invariant_def quiet_step_def keeps_registered_def)

lemma build_frame_keeps: "build_frame vp f0 f \<Longrightarrow> keeps_registered f0 f"
  unfolding build_frame_def keeps_registered_def isdir_def path_exists_def
  by (metis option.distinct(1))

lemma build_frame_preserves:
  "build_frame vp (fs w) (fs w') \<Longrightarrow> preserves_invariant env w w'"
  using build_frame_keeps[of vp "fs w" "fs w'"] keeps_registered_invariant[of "fs w" "fs w'" env]
  by (auto simp: preserves_invariant_def build_frame_def keeps_registered_def)

lemma get_container_path_preserves:
  assumes run: "get_container_path x env name w = (res, w')"
  shows "preserves_invariant env w w'"
proof -
  let ?reg = "path_join env ''registry.json''"
  let ?cp = "path_join env (container_uuid x)"
  from get_container_path_cases[OF run] consider
      (known) "w' = w"
    | (failed) "quiet_step w w'"
    | (fresh) r s where
        "lookup (fs w) ?reg = Some (File (RegistryJson r)) \<or>
         \<not> path_exists (fs w) ?reg \<and> r = \<lparr>schema_version = REGISTRY_VERSION, containers = []\<rparr>"
        "quiet_step w s" "isdir (fs s) ?cp"
        "write_content ?reg
          (RegistryJson (r\<lparr>containers := AList.update name ?cp (containers r)\<rparr>)) s
          = (Inr (), w')"
    by blast
  then show ?thesis
  proof cases
    case known
    then show ?thesis by (simp add: preserves_invariant_refl)
  next
    case failed
    then show ?thesis by (rule quiet_step_preserves)
  next
    case fresh
    let ?r' = "r\<lparr>containers := AList.update name ?cp (containers r)\<rparr>"
    from write_content_ok[OF fresh(4)]
    have parent: "isdir (fs s) (dirname ?reg)" and nd: "\<not> isdir (fs s) ?reg"
      and fs': "fs w' = AList.update ?reg (File (RegistryJson ?r')) (fs s)"
      by simp_all
    have kept: "isdir (fs w') p" if "isdir (fs s) p" for p
      using that nd by (auto simp: fs' isdir_def lookup_update)
    show ?thesis
      unfolding preserves_invariant_def
    proof (intro impI conjI allI)
      assume pre: "wf_fs (fs w) \<and> registry_invariant env (fs w)"
      with fresh(2) have "wf_fs (fs s)" by (simp add: quiet_step_def)
      with parent nd show "wf_fs (fs w')"
        unfolding fs' by (intro wf_update) simp_all
      have old: "isdir (fs w) p" if "(n, p) \<in> set (containers r)" for n p
        using fresh(1) pre that by (auto simp: registry_invariant_def)
      have "isdir (fs w') p" if "(n, p) \<in> set (containers ?r')" for n p
      proof -
        from that have "(n, p) = (name, ?cp) \<or> (n, p) \<in> set (containers r)"
          by (auto dest: set_update_cases)
        then show ?thesis
        proof
          assume "(n, p) = (name, ?cp)"
          with fresh(3) kept show ?thesis by simp
        next
          assume "(n, p) \<in> set (containers r)"
          then have "isdir (fs w) p" by (rule old)
          with fresh(2) have "isdir (fs s) p" by (rule quiet_step_isdir)
          then show ?thesis by (rule kept)
        qed
      qed
      moreover have "lookup (fs w') ?reg = Some (File (RegistryJson ?r'))"
        by (simp add: fs' lookup_update)
      ultimately show "registry_invariant env (fs w')"
        by (auto simp: registry_invariant_def)
    next
      fix p assume "isdir (fs w) p"
      with fresh(2) have "isdir (fs s) p" by (rule quiet_step_isdir)
      then show "isdir (fs w') p" by (rule kept)
    qed
  qed
qed

lemma andthen_cases:
  assumes "andthen m f w = (res, w')"
  obtains (failed) e where "m w = (Inl e, w')" "res = Inl e"
        | (went_on) a s where "m w = (Inr a, s)" "f a s = (res, w')"
  using assms by (auto simp: andthen_def split: sum.splits prod.splits)

lemma andthen_preserves:
  assumes run: "andthen m f w = (res, w')"
      and first: "\<And>r s. m w = (r, s) \<Longrightarrow> preserves_invariant env w s"
      and rest: "\<And>a s. m w = (Inr a, s) \<Longrightarrow> f a s = (res, w') \<Longrightarrow> preserves_invariant env s w'"
  shows "preserves_invariant env w w'"
  using run
proof (cases rule: andthen_cases)
  case (failed e)
  then show ?thesis using first by blast
next
  case (went_on a s)
  from first[OF went_on(1)] rest[OF went_on] show ?thesis by (rule preserves_invariant_trans)
qed

lemma run_image_fs: "run_command x (RunImage p) w = (r, w') \<Longrightarrow> fs w' = fs w"
  by (auto simp: run_command_def split: sum.splits if_splits option.splits node.splits)

lemma play_asciicast_fs: "play_asciicast x p w = (r, w') \<Longrightarrow> fs w' = fs w"
  by (auto simp: play_asciicast_def split: option.splits node.splits if_splits)

lemma list_children_fs: "fs (list_children c cp children w) = fs w"
  by (induction children arbitrary: w) (simp_all add: Let_def)

lemma list_containers_fs: "fs (snd (list_containers r ks w)) = fs w"
  by (induction ks arbitrary: w)
     (auto simp: os_listdir_def list_children_fs split: option.splits node.splits)

lemma cmd_run_preserves:
  assumes "cmd_run x name version env0 w = (res, w')"
  shows "preserves_invariant (environment x env0) w w'"
proof -
  let ?env = "environment x env0"
  from assms have run: "andthen (get_container_path x ?env name) (\<lambda>container_path.
      andthen (get_container_version_path container_path version True) (\<lambda>(version_path, existed).
        if \<not> existed then raise VersionNotFound
        else
          (let sif_path = path_join version_path ''container.sif'' in
           run_command x (RunImage sif_path)))) w = (res, w')"
    by (simp add: cmd_run_def environment_def Let_def)
  show ?thesis
  proof (rule andthen_preserves[OF run])
    fix r s assume "get_container_path x ?env name w = (r, s)"
    then show "preserves_invariant ?env w s" by (rule get_container_path_preserves)
  next
    fix cp s
    assume inner: "andthen (get_container_version_path cp version True) (\<lambda>(version_path, existed).
        if \<not> existed then raise VersionNotFound
        else
          (let sif_path = path_join version_path ''container.sif'' in
           run_command x (RunImage sif_path))) s = (res, w')"
    show "preserves_invariant ?env s w'"
    proof (rule andthen_preserves[OF inner])
      fix r t assume "get_container_version_path cp version True s = (r, t)"
      then show "preserves_invariant ?env s t"
        by (intro quiet_step_preserves get_container_version_path_quiet)
    next
      fix a t
      assume "(case a of (version_path, existed) \<Rightarrow>
        if \<not> existed then raise VersionNotFound
        else
          (let sif_path = path_join version_path ''container.sif'' in
           run_command x (RunImage sif_path))) t = (res, w')"
      then have "fs w' = fs t"
        by (auto simp: raise_def Let_def split: prod.splits if_splits dest: run_image_fs)
      then show "preserves_invariant ?env t w'" by (rule preserves_invariant_refl)
    qed
  qed
qed

lemma cmd_replay_preserves:
  assumes "cmd_replay x name version env0 w = (res, w')"
  shows "preserves_invariant (environment x env0) w w'"
proof -
  let ?env = "environment x env0"
  from assms have run: "andthen (get_container_path x ?env name) (\<lambda>container_path.
      andthen (get_container_version_path container_path version False) (\<lambda>(version_path, existed).
        if \<not> existed then raise VersionNotFound
        else
          (let cast_filename = get_container_recording_path version_path in
           play_asciicast x cast_filename))) w = (res, w')"
    by (simp add: cmd_replay_def environment_def Let_def)
  show ?thesis
  proof (rule andthen_preserves[OF run])
    fix r s assume "get_container_path x ?env name w = (r, s)"
    then show "preserves_invariant ?env w s" by (rule get_container_path_preserves)
  next
    fix cp s
    assume inner: "andthen (get_container_version_path cp version False) (\<lambda>(version_path, existed).
        if \<not> existed then raise VersionNotFound
        else
          (let cast_filename = get_container_recording_path version_path in
           play_asciicast x cast_filename)) s = (res, w')"
    show "preserves_invariant ?env s w'"
    proof (rule andthen_preserves[OF inner])
      fix r t assume "get_container_version_path cp version False s = (r, t)"
      then show "preserves_invariant ?env s t"
        by (intro quiet_step_preserves get_container_version_path_quiet)
    next
      fix a t
      assume "(case a of (version_path, existed) \<Rightarrow>
        if \<not> existed then raise VersionNotFound
        else
          (let cast_filename = get_container_recording_path version_path in
           play_asciicast x cast_filename)) t = (res, w')"
      then have "fs w' = fs t"
        by (auto simp: raise_def Let_def split: prod.splits if_splits dest: play_asciicast_fs)
      then show "preserves_invariant ?env t w'" by (rule preserves_invariant_refl)
    qed
  qed
qed

lemma load_registry_quiet: "load_registry env w = (r, w') \<Longrightarrow> quiet_step w w'"
  using load_registry_cases[of env w r w'] by (auto simp: quiet_step_refl)

lemma cmd_list_preserves:
  assumes "cmd_list x env0 w = (res, w')"
  shows "preserves_invariant (environment x env0) w w'"
proof -
  let ?env = "environment x env0"
  from assms have run: "andthen (load_registry ?env) (\<lambda>registry.
        list_containers registry (dict_keys (containers registry))) w = (res, w')"
    by (simp add: cmd_list_def environment_def Let_def)
  show ?thesis
  proof (rule andthen_preserves[OF run])
    fix r s assume "load_registry ?env w = (r, s)"
    then show "preserves_invariant ?env w s"
      by (intro quiet_step_preserves load_registry_quiet)
  next
    fix a s assume "list_containers a (dict_keys (containers a)) s = (res, w')"
    then have "fs w' = fs s" using list_containers_fs[of a "dict_keys (containers a)" s] by simp
    then show "preserves_invariant ?env s w'" by (rule preserves_invariant_refl)
  qed
qed

lemma cmd_create_preserves:
  assumes "cmd_create x name base version0 pkg env0 w = (res, w')"
  shows "preserves_invariant (environment x env0) w w'"
  using assms
proof (cases rule: cmd_create_cases)
  case refused
  then show ?thesis by (simp add: preserves_invariant_refl)
next
  case (no_container e)
  then show ?thesis by (intro get_container_path_preserves)
next
  case (no_version cp e s)
  have 1: "preserves_invariant (environment x env0) w s"
    using no_version(1) by (rule get_container_path_preserves)
  have 2: "preserves_invariant (environment x env0) s w'"
    using no_version(2) by (intro quiet_step_preserves get_container_version_path_quiet)
  from 1 2 show ?thesis by (rule preserves_invariant_trans)
next
  case (duplicate cp vp)
  then show ?thesis by (intro get_container_path_preserves)
next
  case (built cp vp s s')
  have 1: "preserves_invariant (environment x env0) w s"
    using built(1) by (rule get_container_path_preserves)
  have 2: "preserves_invariant (environment x env0) s s'"
    using built(2) by (intro quiet_step_preserves get_container_version_path_quiet)
  have 3: "preserves_invariant (environment x env0) s' w'"
  proof (cases "wf_fs (fs s')")
    case True
    from build_steps_frame[OF built(3) True] show ?thesis by (rule build_frame_preserves)
  next
    case False
    then show ?thesis by (simp add: preserves_invariant_def)
  qed
  from 1 2 3 show ?thesis by (blast intro: preserves_invariant_trans)
qed

lemma build_frame_lookup:
  "build_frame vp f0 f \<Longrightarrow> path_exists f0 q \<Longrightarrow>
   q \<noteq> path_join vp ''recording.cast'' \<Longrightarrow> q \<noteq> path_join vp ''container.sif'' \<Longrightarrow>
   lookup f q = lookup f0 q"
  by (auto simp: build_frame_def)

section \<open>Facts about listing\<close>








section \<open>Claims\<close>

subsection \<open>C3: loading an absent registry\<close>

text \<open>
  C3. Where the registry file is absent, \<open>load_registry\<close> should return a fresh record
  with no containers and make sure the directory exists. It calls \<open>os.makedirs\<close> without
  \<open>exist_ok\<close>: when the environment directory is already there and holds no registry
  file, the call raises \<open>FileExistsError\<close> and no record is returned.
  \<open>save_registry\<close> passes \<open>exist_ok=True\<close> at the same place.
\<close>

theorem load_registry_existing_dir_fails:
  "load_registry [''E''] world_empty_dir = (Inl FileExistsError, world_empty_dir)"
  by code_simp

subsection \<open>C1: replay of a name that was never built\<close>

text \<open>
  C1. \<open>replay\<close> of a name and version never built should fail with \<open>VersionNotFound\<close> and
  leave the directory tree and the registry as they were. It passes \<open>mkdir=False\<close> for
  the version, but resolves the container with \<open>get_container_path\<close>: for a name the
  registry does not hold, the call fails with \<open>VersionNotFound\<close> after it has made a
  container directory and written the name into the registry.
\<close>

theorem replay_unknown_name_creates_container:
  "cmd_replay ext_ok ''alpha'' ''v1'' [''E''] world_no_container =
     (Inl VersionNotFound,
      \<lparr>fs = [([''E''], Dir),
             ([''E'', ''registry.json''], File (RegistryJson registry_alpha)),
             ([''E'', ''c1''], Dir)],
       trace = [Write [''E'', ''registry.json'']]\<rparr>)"
  by code_simp

subsection \<open>C6: resolving a container path twice\<close>

text \<open>
  C6, as amended. When container-path resolution returns a path, a second resolution of
  the same name returns the same path and changes nothing: it performs no save and
  leaves the file system and the trace as they are. The first resolution saves the
  registry exactly once when the name was not registered yet, and not at all when it was.
\<close>

theorem container_path_resolution_idempotent:
  assumes "get_container_path x env name w = (Inr p, w1)"
  shows "get_container_path x' env name w1 = (Inr p, w1) \<and>
         trace w1 = trace w @
           (if registered env name (fs w) then [] else [Write (path_join env ''registry.json'')])"
proof -
  let ?reg = "path_join env ''registry.json''"
  from get_container_path_cases[OF assms] consider
      (known) r cp where "lookup (fs w) ?reg = Some (File (RegistryJson r))"
        "map_of (containers r) name = Some cp" "p = cp" "w1 = w"
    | (fresh) r s where
        "lookup (fs w) ?reg = Some (File (RegistryJson r)) \<or>
         \<not> path_exists (fs w) ?reg \<and> r = \<lparr>schema_version = REGISTRY_VERSION, containers = []\<rparr>"
        "map_of (containers r) name = None" "quiet_step w s"
        "p = path_join env (container_uuid x)"
        "write_content ?reg
          (RegistryJson (r\<lparr>containers := AList.update name (path_join env (container_uuid x)) (containers r)\<rparr>)) s
          = (Inr (), w1)"
    by auto
  then show ?thesis
  proof cases
    case known
    then show ?thesis
      by (simp add: get_container_path_registered registered_def)
  next
    case fresh
    let ?r' = "r\<lparr>containers := AList.update name p (containers r)\<rparr>"
    from fresh(4,5) have w1: "w1 = s\<lparr>fs := AList.update ?reg (File (RegistryJson ?r')) (fs s),
                               trace := trace s @ [Write ?reg]\<rparr>"
      by (auto dest: write_content_ok)
    have "lookup (fs w1) ?reg = Some (File (RegistryJson ?r'))"
      by (simp add: w1 lookup_update path_join_def)
    moreover have "map_of (containers ?r') name = Some p"
      by (simp add: update_conv')
    ultimately have "get_container_path x' env name w1 = (Inr p, w1)"
      by (rule get_container_path_registered)
    moreover have "\<not> registered env name (fs w)"
      using fresh(1,2) by (auto simp: registered_def path_exists_def)
    moreover have "trace w1 = trace w @ [Write ?reg]"
      using fresh(3) by (simp add: w1 quiet_step_def)
    ultimately show ?thesis by simp
  qed
qed

theorem container_path_resolution_idempotent_witness:
  "get_container_path ext_ok [''E''] ''alpha'' world_no_container =
     (Inr [''E'', ''c1''],
      \<lparr>fs = [([''E''], Dir),
             ([''E'', ''registry.json''], File (RegistryJson registry_alpha)),
             ([''E'', ''c1''], Dir)],
       trace = [Write [''E'', ''registry.json'']]\<rparr>) \<and>
   get_container_path ext_ok [''E''] ''alpha''
      \<lparr>fs = [([''E''], Dir),
             ([''E'', ''registry.json''], File (RegistryJson registry_alpha)),
             ([''E'', ''c1''], Dir)],
       trace = [Write [''E'', ''registry.json'']]\<rparr> =
     (Inr [''E'', ''c1''],
      \<lparr>fs = [([''E''], Dir),
             ([''E'', ''registry.json''], File (RegistryJson registry_alpha)),
             ([''E'', ''c1''], Dir)],
       trace = [Write [''E'', ''registry.json'']]\<rparr>)"
proof -
  have first: "get_container_path ext_ok [''E''] ''alpha'' world_no_container =
     (Inr [''E'', ''c1''],
      \<lparr>fs = [([''E''], Dir),
             ([''E'', ''registry.json''], File (RegistryJson registry_alpha)),
             ([''E'', ''c1''], Dir)],
       trace = [Write [''E'', ''registry.json'']]\<rparr>)"
    by code_simp
  have second: "get_container_path ext_ok [''E''] ''alpha''
      \<lparr>fs = [([''E''], Dir),
             ([''E'', ''registry.json''], File (RegistryJson registry_alpha)),
             ([''E'', ''c1''], Dir)],
       trace = [Write [''E'', ''registry.json'']]\<rparr> =
     (Inr [''E'', ''c1''],
      \<lparr>fs = [([''E''], Dir),
             ([''E'', ''registry.json''], File (RegistryJson registry_alpha)),
             ([''E'', ''c1''], Dir)],
       trace = [Write [''E'', ''registry.json'']]\<rparr>)"
    by (rule container_path_resolution_idempotent[OF first, THEN conjunct1])
  from first second show ?thesis by (rule conjI)
qed

text \<open>
  C6 as stated asks for exactly one registry mutation over the two calls. For a name
  that is registered already both calls return the stored path and neither saves.
\<close>

theorem resolution_of_registered_name_never_saves:
  "get_container_path ext_ok [''E''] ''alpha'' world_built = (Inr [''E'', ''c1''], world_built) \<and>
   get_container_path ext_ok [''E''] ''alpha''
     (snd (get_container_path ext_ok [''E''] ''alpha'' world_built)) =
     (Inr [''E'', ''c1''], world_built) \<and>
   count_list (trace world_built) (Write [''E'', ''registry.json'']) = 0"
  by code_simp

subsection \<open>C4: run on a version that does not exist\<close>

text \<open>
  C4, as amended. For a registered container whose directory exists and a version that
  is a single entry name (not empty, without \<open>/\<close>, neither \<open>.\<close> nor \<open>..\<close>) whose directory
  does not exist, \<open>run\<close> raises the version-not-found error, but only after
  \<open>get_container_version_path\<close>, called with its default \<open>mkdir=True\<close>, has made the empty
  version directory. A later \<open>create\<close> of the same name and version, whose package manager
  is given or detected, then fails with \<open>DuplicateVersion\<close> and changes nothing, although
  no build ever ran.
\<close>

theorem run_creates_missing_version_directory:
  assumes reg: "lookup (fs w) (path_join (environment x env) ''registry.json'') =
                  Some (File (RegistryJson r))"
      and name: "map_of (containers r) name = Some cp"
      and dir: "isdir (fs w) cp"
      and missing: "\<not> path_exists (fs w) (path_join cp version)"
      and version: "entry_name version"
      and pkg: "pkg \<noteq> [] \<or> get_package_manager base \<noteq> ''unknown''"
      and same_env: "environment x' env = environment x env"
  shows "cmd_run x name version env w =
           (Inl VersionNotFound, w\<lparr>fs := AList.update (path_join cp version) Dir (fs w)\<rparr>) \<and>
         cmd_create x' name base version pkg env
             (w\<lparr>fs := AList.update (path_join cp version) Dir (fs w)\<rparr>) =
           (Inl DuplicateVersion, w\<lparr>fs := AList.update (path_join cp version) Dir (fs w)\<rparr>)"
proof -
  let ?vp = "path_join cp version"
  let ?w1 = "w\<lparr>fs := AList.update ?vp Dir (fs w)\<rparr>"
  have none: "find_name (fs w) cp version = None"
    using missing by (simp add: find_name_entry[OF version])
  have made: "os_mkdir ?vp w = (Inr (), ?w1)"
    using missing dir by (simp add: os_mkdir_def fs_mkdir_def isdir_def)
  have "get_container_version_path cp version True w = (Inr (?vp, False), ?w1)"
    by (simp add: get_container_version_path_def none mkdir_target_entry[OF version]
          andthen_def made return_def)
  then have run: "cmd_run x name version env w = (Inl VersionNotFound, ?w1)"
    by (simp add: cmd_run_registered[OF reg name] andthen_def raise_def)
  have ne: "?vp \<noteq> path_join (environment x env) ''registry.json''"
    using reg missing by (auto simp: path_exists_def)
  have reg1: "lookup (fs ?w1) (path_join (environment x' env) ''registry.json'') =
                Some (File (RegistryJson r))"
    using reg ne by (auto simp: same_env lookup_update)
  have "isdir (fs ?w1) cp"
    using dir by (simp add: isdir_def lookup_update)
  moreover have "path_exists (fs ?w1) ?vp"
    by (simp add: path_exists_def lookup_update)
  ultimately have found: "find_name (fs ?w1) cp version = Some ?vp"
    by (simp add: find_name_entry[OF version])
  from version have "version \<noteq> []" by (simp add: entry_name_def)
  then have "chosen_version x' version = version" by (simp add: chosen_version_def)
  with found have found': "find_name (fs ?w1) cp (chosen_version x' version) = Some ?vp" by simp
  from pkg have pm: "\<not> (pkg = [] \<and> get_package_manager base = ''unknown'')" by blast
  from run cmd_create_duplicate[OF reg1 name found' pm] show ?thesis by (rule conjI)
qed

theorem run_creates_missing_version_directory_witness:
  "cmd_run ext_ok ''alpha'' ''v2'' [''E''] world_built =
     (Inl VersionNotFound,
      world_built\<lparr>fs := AList.update [''E'', ''c1'', ''v2''] Dir (fs world_built)\<rparr>) \<and>
   cmd_create ext_ok ''alpha'' ''ubuntu:22.04'' ''v2'' [] [''E'']
       (world_built\<lparr>fs := AList.update [''E'', ''c1'', ''v2''] Dir (fs world_built)\<rparr>) =
     (Inl DuplicateVersion,
      world_built\<lparr>fs := AList.update [''E'', ''c1'', ''v2''] Dir (fs world_built)\<rparr>)"
proof -
  have h1: "lookup (fs world_built) (path_join (environment ext_ok [''E'']) ''registry.json'') =
              Some (File (RegistryJson registry_alpha))"
    by code_simp
  have h2: "map_of (containers registry_alpha) ''alpha'' = Some [''E'', ''c1'']"
    by code_simp
  have h3: "isdir (fs world_built) [''E'', ''c1'']"
    by code_simp
  have h4: "\<not> path_exists (fs world_built) (path_join [''E'', ''c1''] ''v2'')"
    by code_simp
  have h5: "entry_name ''v2''"
    by (simp add: entry_name_def)
  have h6: "([] :: string) \<noteq> [] \<or> get_package_manager ''ubuntu:22.04'' \<noteq> ''unknown''"
    by code_simp
  have h7: "environment ext_ok [''E''] = environment ext_ok [''E'']"
    by simp
  from run_creates_missing_version_directory[OF h1 h2 h3 h4 h5 h6 h7]
  show ?thesis by (simp add: path_join_def)
qed

text \<open>
  C4 as stated holds for every version string whose directory does not exist. For the
  version \<open>a/b\<close> in a container without the directory \<open>a\<close>, \<open>os.mkdir\<close> has no parent to
  make the directory in: \<open>run\<close> raises \<open>FileNotFoundError\<close>, not the version-not-found
  error, makes nothing, and the later \<open>create\<close> raises \<open>FileNotFoundError\<close> too.
\<close>

theorem run_on_nested_version_fails_in_mkdir:
  "find_name (fs world_built) [''E'', ''c1''] ''a/b'' = None \<and>
   cmd_run ext_ok ''alpha'' ''a/b'' [''E''] world_built = (Inl FileNotFoundError, world_built) \<and>
   cmd_create ext_ok ''alpha'' ''ubuntu:22.04'' ''a/b'' [] [''E''] world_built =
     (Inl FileNotFoundError, world_built)"
  by code_simp

subsection \<open>C2: run and the image file\<close>

text \<open>
  C2, as amended. In a file system that is a tree, for a registered container and a
  version that is a single entry name (not empty, without \<open>/\<close>, neither \<open>.\<close> nor \<open>..\<close>),
  \<open>run\<close> looks at the version directory, not at the image. When the version directory
  exists it hands \<open>singularity run <version>/container.sif\<close> to the external run
  facility, whether or not the image file is there; the command succeeds when its exit
  status is success and the image is a file, and is an \<open>ExternalToolFailure\<close> otherwise.
  When the version directory does not exist and the container directory does, \<open>run\<close>
  fails with \<open>VersionNotFound\<close> (after making the version directory); when the container
  directory is missing too, the attempt to make the version directory fails with the
  error of \<open>os.mkdir\<close>.
\<close>

theorem run_checks_version_directory:
  assumes reg: "lookup (fs w) (path_join (environment x env) ''registry.json'') =
                  Some (File (RegistryJson r))"
      and name: "map_of (containers r) name = Some cp"
      and version: "entry_name version"
      and wf: "wf_fs (fs w)"
  shows "cmd_run x name version env w =
           (if path_exists (fs w) (path_join cp version)
            then run_command x (RunImage (path_join (path_join cp version) ''container.sif'')) w
            else if isdir (fs w) cp
            then (Inl VersionNotFound, w\<lparr>fs := AList.update (path_join cp version) Dir (fs w)\<rparr>)
            else (Inl (if path_exists (fs w) cp then NotADirectoryError else FileNotFoundError), w))
         \<and> run_command x (RunImage (path_join (path_join cp version) ''container.sif'')) w =
           (if tool_ok x (RunImage (path_join (path_join cp version) ''container.sif'')) \<and>
               isfile (fs w) (path_join (path_join cp version) ''container.sif'')
            then (Inr (),
                  w\<lparr>trace := trace w @
                      [Exec (RunImage (path_join (path_join cp version) ''container.sif'')) True]\<rparr>)
            else (Inl ExternalToolFailure,
                  w\<lparr>trace := trace w @
                      [Exec (RunImage (path_join (path_join cp version) ''container.sif'')) False]\<rparr>))"
proof -
  let ?vp = "path_join cp version"
  have parent: "isdir (fs w) cp" if "path_exists (fs w) ?vp"
    using wf_parent[OF wf that] by simp
  have found: "find_name (fs w) cp version = (if path_exists (fs w) ?vp then Some ?vp else None)"
    using parent by (auto simp: find_name_entry[OF version])
  have made: "os_mkdir ?vp w =
      (if path_exists (fs w) ?vp then (Inl FileExistsError, w)
       else if isdir (fs w) cp then (Inr (), w\<lparr>fs := AList.update ?vp Dir (fs w)\<rparr>)
       else (Inl (if path_exists (fs w) cp then NotADirectoryError else FileNotFoundError), w))"
    by (auto simp: os_mkdir_def fs_mkdir_def isdir_def path_exists_def
          split: option.splits node.splits)
  have "cmd_run x name version env w =
           (if path_exists (fs w) ?vp
            then run_command x (RunImage (path_join ?vp ''container.sif'')) w
            else if isdir (fs w) cp
            then (Inl VersionNotFound, w\<lparr>fs := AList.update ?vp Dir (fs w)\<rparr>)
            else (Inl (if path_exists (fs w) cp then NotADirectoryError else FileNotFoundError), w))"
    by (simp add: cmd_run_registered[OF reg name] andthen_def get_container_version_path_def
          found mkdir_target_entry[OF version] made raise_def return_def Let_def)
  moreover have "run_command x (RunImage (path_join ?vp ''container.sif'')) w =
           (if tool_ok x (RunImage (path_join ?vp ''container.sif'')) \<and>
               isfile (fs w) (path_join ?vp ''container.sif'')
            then (Inr (),
                  w\<lparr>trace := trace w @
                      [Exec (RunImage (path_join ?vp ''container.sif'')) True]\<rparr>)
            else (Inl ExternalToolFailure,
                  w\<lparr>trace := trace w @
                      [Exec (RunImage (path_join ?vp ''container.sif'')) False]\<rparr>))"
    by (auto simp: run_command_def isfile_def split: option.splits node.splits)
  ultimately show ?thesis by (rule conjI)
qed

theorem run_checks_version_directory_witness:
  "cmd_run ext_ok ''alpha'' ''v1'' [''E''] world_built =
     (Inr (), world_built\<lparr>trace := [Exec (RunImage [''E'', ''c1'', ''v1'', ''container.sif'']) True]\<rparr>)"
proof -
  have h1: "lookup (fs world_built) (path_join (environment ext_ok [''E'']) ''registry.json'') =
              Some (File (RegistryJson registry_alpha))"
    by code_simp
  have h2: "map_of (containers registry_alpha) ''alpha'' = Some [''E'', ''c1'']"
    by code_simp
  have h3: "path_exists (fs world_built) (path_join [''E'', ''c1''] ''v1'')"
    by code_simp
  have h4: "tool_ok ext_ok (RunImage (path_join (path_join [''E'', ''c1''] ''v1'') ''container.sif'')) \<and>
            isfile (fs world_built) (path_join (path_join [''E'', ''c1''] ''v1'') ''container.sif'')"
    by code_simp
  have h5: "trace world_built = []"
    by code_simp
  have h6: "entry_name ''v1''"
    by (simp add: entry_name_def)
  have h7: "wf_fs (fs world_built)"
    by code_simp
  from run_checks_version_directory[OF h1 h2 h6 h7] h3 h4 h5
  show ?thesis by (simp add: path_join_def)
qed

text \<open>
  C2 as stated asks for \<open>VersionNotFound\<close> whenever the image file is missing. Where the
  version directory is there without the image, \<open>run\<close> delegates to the external command
  and the failure is the command's.
\<close>

theorem run_without_image_is_delegated:
  "isdir (fs world_partial) [''E'', ''c1'', ''v1''] \<and>
   \<not> path_exists (fs world_partial) [''E'', ''c1'', ''v1'', ''container.sif''] \<and>
   cmd_run ext_ok ''alpha'' ''v1'' [''E''] world_partial =
     (Inl ExternalToolFailure,
      world_partial\<lparr>trace := [Exec (RunImage [''E'', ''c1'', ''v1'', ''container.sif'']) False]\<rparr>)"
  by code_simp

subsection \<open>C9: package-manager detection\<close>

text \<open>
  C9, as amended. Detection is a pure match on the base image name, in the order of the
  source: a name containing \<open>ubuntu\<close> or \<open>debian\<close> maps to \<open>apt\<close>; otherwise a name
  containing \<open>centos\<close> or \<open>fedora\<close> maps to \<open>yum\<close>; any other name is unknown. With no
  package manager given, \<open>create\<close> on an unknown base fails with
  \<open>UnknownPackageManager\<close> before it touches anything, and on a known base it is the
  \<open>create\<close> with the detected package manager given.
\<close>

theorem package_manager_detection:
  "get_package_manager base =
     (if sublist ''ubuntu'' base \<or> sublist ''debian'' base then ''apt''
      else if sublist ''centos'' base \<or> sublist ''fedora'' base then ''yum''
      else ''unknown'') \<and>
   cmd_create x name base version [] env w =
     (if get_package_manager base = ''unknown'' then (Inl UnknownPackageManager, w)
      else cmd_create x name base version (get_package_manager base) env w)"
  by (simp add: get_package_manager_def cmd_create_def andthen_def raise_def return_def Let_def)

theorem package_manager_detection_witness:
  "get_package_manager ''fedora:39'' = ''yum'' \<and>
   cmd_create ext_ok ''alpha'' ''alpine:3'' ''v1'' [] [''E''] world_empty_dir =
     (Inl UnknownPackageManager, world_empty_dir)"
proof -
  have h1: "\<not> sublist ''ubuntu'' ''fedora:39''" "\<not> sublist ''debian'' ''fedora:39''"
    "sublist ''fedora'' ''fedora:39''"
    by code_simp+
  have h2: "get_package_manager ''alpine:3'' = ''unknown''"
    by code_simp
  from package_manager_detection[of "''fedora:39''"]
       package_manager_detection[of "''alpine:3''" ext_ok "''alpha''" "''v1''" "[''E'']" world_empty_dir]
       h1 h2
  show ?thesis by simp
qed

text \<open>
  C9 as stated maps every name containing \<open>centos\<close> to the yum family. A name that also
  contains \<open>ubuntu\<close> maps to \<open>apt\<close>, the first branch that matches.
\<close>

theorem centos_on_ubuntu_is_apt:
  "sublist ''centos'' ''centos-on-ubuntu'' \<and> get_package_manager ''centos-on-ubuntu'' = ''apt''"
  by code_simp

subsection \<open>C10: cleanup of the temporary workspace\<close>

text \<open>
  C10. In every execution of \<open>create\<close>, the removal of the temporary workspace is
  attempted exactly when the image conversion succeeded. Among the events the execution
  adds to the trace, a removal is there if and only if a successful conversion is; the
  removal is the last event, so it follows the conversion; and no event but the last is
  a failed step, so a failure aborts the steps that remain.
\<close>

theorem cleanup_exactly_after_conversion:
  assumes "cmd_create x name base version pkg env w = (res, w')"
  shows "trace w' = trace w @ new_events w w' \<and>
         cleanup_attempted (new_events w w') = conversion_succeeded (new_events w w') \<and>
         list_all (\<lambda>e. \<not> step_failed e \<and> \<not> is_cleanup e) (butlast (new_events w w'))"
proof -
  let ?reg = "path_join (environment x env) ''registry.json''"
  have "\<exists>pre evs td vp. trace w' = trace w @ pre @ evs \<and> (pre = [] \<or> pre = [Write ?reg]) \<and>
          evs \<in> build_events td vp"
    using assms
  proof (cases rule: cmd_create_cases)
    case refused
    then have "trace w' = trace w @ [] @ []" by simp
    moreover have "[] \<in> build_events [] []" by (simp add: build_events_def Let_def)
    ultimately show ?thesis by blast
  next
    case (no_container e)
    from get_container_path_trace[OF no_container(1)]
    have "\<exists>pre. trace w' = trace w @ pre @ [] \<and> (pre = [] \<or> pre = [Write ?reg])" by auto
    moreover have "[] \<in> build_events [] []" by (simp add: build_events_def Let_def)
    ultimately show ?thesis by blast
  next
    case (no_version cp e s)
    from get_container_path_trace[OF no_version(1)]
      get_container_version_path_trace[OF no_version(2)]
    have "\<exists>pre. trace w' = trace w @ pre @ [] \<and> (pre = [] \<or> pre = [Write ?reg])" by auto
    moreover have "[] \<in> build_events [] []" by (simp add: build_events_def Let_def)
    ultimately show ?thesis by blast
  next
    case (duplicate cp vp0)
    from get_container_path_trace[OF duplicate(1)]
    have "\<exists>pre. trace w' = trace w @ pre @ [] \<and> (pre = [] \<or> pre = [Write ?reg])" by auto
    moreover have "[] \<in> build_events [] []" by (simp add: build_events_def Let_def)
    ultimately show ?thesis by blast
  next
    case (built cp vp0 s s')
    from build_steps_trace[OF built(3)] obtain evs td vp where
      evs: "evs \<in> build_events td vp" "trace w' = trace s' @ evs" by blast
    from get_container_path_trace[OF built(1)] get_container_version_path_trace[OF built(2)]
    have "\<exists>pre. trace s' = trace w @ pre \<and> (pre = [] \<or> pre = [Write ?reg])" by auto
    then obtain pre where "trace s' = trace w @ pre" "pre = [] \<or> pre = [Write ?reg]" by blast
    with evs have "trace w' = trace w @ pre @ evs \<and> (pre = [] \<or> pre = [Write ?reg]) \<and>
          evs \<in> build_events td vp" by simp
    then show ?thesis by blast
  qed
  then obtain pre evs td vp where sh: "trace w' = trace w @ pre @ evs"
    "pre = [] \<or> pre = [Write ?reg]" "evs \<in> build_events td vp" by blast
  from sh(1) have ne: "new_events w w' = pre @ evs" by (rule new_events_append)
  from build_events_orderly[OF sh(3) sh(2)] sh(1) ne show ?thesis by simp
qed

theorem cleanup_exactly_after_conversion_witness:
  "conversion_succeeded
     (new_events world_fresh
        (snd (cmd_create ext_ok ''alpha'' ''ubuntu:22.04'' ''v1'' [] [''E''] world_fresh))) \<and>
   cleanup_attempted
     (new_events world_fresh
        (snd (cmd_create ext_ok ''alpha'' ''ubuntu:22.04'' ''v1'' [] [''E''] world_fresh)))"
proof -
  have c: "conversion_succeeded
     (new_events world_fresh
        (snd (cmd_create ext_ok ''alpha'' ''ubuntu:22.04'' ''v1'' [] [''E''] world_fresh)))"
    by code_simp
  have "cmd_create ext_ok ''alpha'' ''ubuntu:22.04'' ''v1'' [] [''E''] world_fresh =
        (fst (cmd_create ext_ok ''alpha'' ''ubuntu:22.04'' ''v1'' [] [''E''] world_fresh),
         snd (cmd_create ext_ok ''alpha'' ''ubuntu:22.04'' ''v1'' [] [''E''] world_fresh))"
    by simp
  from cleanup_exactly_after_conversion[OF this] c show ?thesis by simp
qed

subsection \<open>C7: the registry invariant\<close>

text \<open>
  C7. Every operation preserves the registry invariant: started in a file system that is
  a tree and in which every name of the persisted registry maps to a directory that
  exists, container-path resolution and each of the four commands end, whatever their
  outcome, in a file system of which the same holds. Resolution makes the container
  directory before it inserts and saves the entry, so the invariant holds also when a
  step in between fails; and every directory that existed before the operation, a
  container directory in particular, still exists after it.
\<close>

theorem registry_invariant_preserved:
  "preserves_invariant env w (snd (get_container_path x env name w)) \<and>
   preserves_invariant (environment x env0) w (snd (cmd_create x name base version pkg env0 w)) \<and>
   preserves_invariant (environment x env0) w (snd (cmd_run x name version env0 w)) \<and>
   preserves_invariant (environment x env0) w (snd (cmd_list x env0 w)) \<and>
   preserves_invariant (environment x env0) w (snd (cmd_replay x name version env0 w))"
proof (intro conjI)
  show "preserves_invariant env w (snd (get_container_path x env name w))"
    by (rule get_container_path_preserves[OF surjective_pairing])
  show "preserves_invariant (environment x env0) w (snd (cmd_create x name base version pkg env0 w))"
    by (rule cmd_create_preserves[OF surjective_pairing])
  show "preserves_invariant (environment x env0) w (snd (cmd_run x name version env0 w))"
    by (rule cmd_run_preserves[OF surjective_pairing])
  show "preserves_invariant (environment x env0) w (snd (cmd_list x env0 w))"
    by (rule cmd_list_preserves[OF surjective_pairing])
  show "preserves_invariant (environment x env0) w (snd (cmd_replay x name version env0 w))"
    by (rule cmd_replay_preserves[OF surjective_pairing])
qed

theorem registry_invariant_preserved_witness:
  "wf_fs (fs world_built) \<and>
   registry_invariant [''E''] (fs world_built) \<and>
   fst (cmd_create ext_next ''beta'' ''debian:12'' ''v1'' [] [''E''] world_built) = Inr () \<and>
   registered [''E''] ''beta''
     (fs (snd (cmd_create ext_next ''beta'' ''debian:12'' ''v1'' [] [''E''] world_built))) \<and>
   isdir (fs (snd (cmd_create ext_next ''beta'' ''debian:12'' ''v1'' [] [''E''] world_built)))
     [''E'', ''c2''] \<and>
   \<not> path_exists
     (fs (snd (cmd_create ext_next ''beta'' ''debian:12'' ''v1'' [] [''E''] world_built)))
     [''E'', ''temp'', ''t2''] \<and>
   wf_fs (fs (snd (cmd_create ext_next ''beta'' ''debian:12'' ''v1'' [] [''E''] world_built))) \<and>
   registry_invariant [''E'']
     (fs (snd (cmd_create ext_next ''beta'' ''debian:12'' ''v1'' [] [''E''] world_built))) \<and>
   isdir (fs (snd (cmd_create ext_next ''beta'' ''debian:12'' ''v1'' [] [''E''] world_built)))
     [''E'', ''c1'']"
proof -
  let ?w' = "snd (cmd_create ext_next ''beta'' ''debian:12'' ''v1'' [] [''E''] world_built)"
  have h1: "wf_fs (fs world_built)" by code_simp
  have h2: "registry_invariant (environment ext_next [''E'']) (fs world_built)" by code_simp
  have h3: "isdir (fs world_built) [''E'', ''c1'']" by code_simp
  have e: "environment ext_next [''E''] = [''E'']" by code_simp
  have ran: "fst (cmd_create ext_next ''beta'' ''debian:12'' ''v1'' [] [''E''] world_built) = Inr ()"
    by code_simp
  have made: "registered [''E''] ''beta'' (fs ?w')" "isdir (fs ?w') [''E'', ''c2'']"
    "\<not> path_exists (fs ?w') [''E'', ''temp'', ''t2'']"
    by code_simp+
  from registry_invariant_preserved[of "[''E'']" world_built ext_next "''beta''" "[''E'']"
      "''debian:12''" "''v1''" "[]"]
  have "preserves_invariant (environment ext_next [''E'']) world_built ?w'"
    by simp
  with h1 h2 h3 have "wf_fs (fs ?w') \<and> registry_invariant [''E''] (fs ?w') \<and>
      isdir (fs ?w') [''E'', ''c1'']"
    unfolding preserves_invariant_def e by blast
  with h1 h2 ran made show ?thesis unfolding e by blast
qed

subsection \<open>C5: creating a version twice\<close>

text \<open>
  C5. In a file system that is a tree, after a \<open>create\<close> of a container and version
  that succeeded, a second \<open>create\<close> of the same container and version (in the same
  environment, with the same base and package manager) fails with \<open>DuplicateVersion\<close>
  and returns the world it was given: no build step is attempted, nothing is written, and
  the artifacts of the first build are as they were.
\<close>

theorem duplicate_version_rejected:
  assumes wf: "wf_fs (fs w)"
      and first: "cmd_create x name base version pkg env w = (Inr (), w1)"
      and same_env: "environment x' env = environment x env"
      and same_version: "chosen_version x' version = chosen_version x version"
  shows "cmd_create x' name base version pkg env w1 = (Inl DuplicateVersion, w1)"
  using first
proof (cases rule: cmd_create_cases)
  case (built cp vp s s')
  let ?env = "environment x env"
  let ?reg = "path_join ?env ''registry.json''"
  let ?v = "chosen_version x version"
  from get_container_path_ok_registered[OF built(1)] obtain r where
    reg: "lookup (fs s) ?reg = Some (File (RegistryJson r))" and
    name: "map_of (containers r) name = Some cp" by blast
  from get_container_version_path_created[OF built(2)]
  have target: "mkdir_target (fs s) cp ?v = Inr vp" and mk: "os_mkdir vp s = (Inr (), s')"
    by simp_all
  have q: "quiet_step s s'" using mk by (rule os_mkdir_quiet)
  have wf_s: "wf_fs (fs s)"
  proof -
    from get_container_path_cases[OF built(1)] consider "s = w" | "quiet_step w s"
      | t c where "quiet_step w t" "write_content ?reg c t = (Inr (), s)" by blast
    then show ?thesis
    proof cases
      case 1 with wf show ?thesis by simp
    next
      case 2 with wf show ?thesis by (simp add: quiet_step_def)
    next
      case 3
      from 3(1) wf have "wf_fs (fs t)" by (simp add: quiet_step_def)
      with write_content_ok[OF 3(2)] show ?thesis by (auto intro: wf_update)
    qed
  qed
  with q have wf_s': "wf_fs (fs s')" by (simp add: quiet_step_def)
  from quiet_step_lookup[OF q reg] have reg': "lookup (fs s') ?reg = Some (File (RegistryJson r))" .
  from os_mkdir_ok[OF mk] have new: "\<not> path_exists (fs s) vp"
    and parent: "isdir (fs s) (dirname vp)"
    and s': "s' = s\<lparr>fs := AList.update vp Dir (fs s)\<rparr>"
    by simp_all
  from new have ne: "vp \<noteq> []" by (auto simp: path_exists_def lookup_def)
  have dir': "lookup (fs s') vp = Some Dir"
    using ne by (simp add: s' lookup_update)
  from build_steps_frame[OF built(3) wf_s'] have fr: "build_frame vp (fs s') (fs w1)" .
  have reg1: "lookup (fs w1) ?reg = Some (File (RegistryJson r))"
    using build_frame_lookup[OF fr, of ?reg] reg' by (simp add: path_exists_def)
  have dir1: "lookup (fs w1) vp = Some Dir"
    using build_frame_lookup[OF fr, of vp] dir' by (simp add: path_exists_def)
  have kept: "isdir (fs w1) p" if "isdir (fs s) p" for p
  proof -
    from quiet_step_isdir[OF q that] have "isdir (fs s') p" .
    with build_frame_keeps[OF fr] show ?thesis by (simp add: keeps_registered_def)
  qed
  have found: "find_name (fs w1) cp ?v = Some vp"
    by (rule made_version_is_found[OF target parent kept]) (simp_all add: isdir_def dir1)
  have pm: "\<not> (pkg = [] \<and> get_package_manager base = ''unknown'')"
  proof
    assume "pkg = [] \<and> get_package_manager base = ''unknown''"
    then have "cmd_create x name base version pkg env w = (Inl UnknownPackageManager, w)"
      by (simp add: cmd_create_def andthen_def raise_def Let_def)
    with first show False by simp
  qed
  show ?thesis
    using reg1 name found pm
    by (intro cmd_create_duplicate[where r = r and cp = cp and vp = vp])
       (simp_all add: same_env same_version)
qed simp_all

theorem duplicate_version_rejected_witness:
  "fst (cmd_create ext_ok ''alpha'' ''ubuntu:22.04'' ''v1'' [] [''E''] world_fresh) = Inr () \<and>
   cmd_create ext_ok ''alpha'' ''ubuntu:22.04'' ''v1'' [] [''E'']
     (snd (cmd_create ext_ok ''alpha'' ''ubuntu:22.04'' ''v1'' [] [''E''] world_fresh)) =
   (Inl DuplicateVersion,
    snd (cmd_create ext_ok ''alpha'' ''ubuntu:22.04'' ''v1'' [] [''E''] world_fresh))"
proof -
  have ok: "fst (cmd_create ext_ok ''alpha'' ''ubuntu:22.04'' ''v1'' [] [''E''] world_fresh) = Inr ()"
    by code_simp
  then have first: "cmd_create ext_ok ''alpha'' ''ubuntu:22.04'' ''v1'' [] [''E''] world_fresh =
      (Inr (), snd (cmd_create ext_ok ''alpha'' ''ubuntu:22.04'' ''v1'' [] [''E''] world_fresh))"
    by (metis prod.collapse)
  have wf: "wf_fs (fs world_fresh)"
    by code_simp
  from ok duplicate_version_rejected[OF wf first refl refl] show ?thesis
    by (rule conjI)
qed

subsection \<open>C8: what list prints\<close>



end
